theory Spec2Isabelle
  imports Complex_Main "HOL-Library.Word"
begin

section \<open>Data model of \<^verbatim>\<open>engine/detail_rendering.h\<close>\<close>

type_synonym uint8_t = "8 word"
type_synonym uint32_t = "32 word"

text \<open>\<^verbatim>\<open>DetailTextureData::Tile\<close>: the cell coordinate and the projection axis.\<close>

record Tile =
  x :: uint8_t
  y :: uint8_t
  z :: uint8_t
  axis :: uint8_t

text \<open>\<^verbatim>\<open>DetailTextureData\<close>: the three \<^verbatim>\<open>std::vector\<close> members, as lists.\<close>

record DetailTextureData =
  normals :: "uint8_t list"
  tiles :: "Tile list"
  tile_indices :: "uint32_t list"

text \<open>\<^verbatim>\<open>DetailTextureData::clear\<close> calls \<^verbatim>\<open>clear()\<close> on \<^verbatim>\<open>normals\<close> and on
  \<^verbatim>\<open>tiles\<close>, and on nothing else.\<close>

definition clear :: "DetailTextureData \<Rightarrow> DetailTextureData" where
  "clear d = d\<lparr>normals := [], tiles := []\<rparr>"

section \<open>Memory, spans and 2D vectors\<close>

text \<open>\<^verbatim>\<open>int\<close> and \<^verbatim>\<open>unsigned int\<close> are 32-bit words. Arithmetic on them is the
  arithmetic of \<^typ>\<open>32 word\<close>, which wraps around modulo \<open>2 ^ 32\<close>; a signed value is read
  with \<^const>\<open>sint\<close>, an unsigned one with \<^const>\<open>unat\<close>. The conversion of an
  \<^verbatim>\<open>int\<close> operand to \<^verbatim>\<open>unsigned int\<close> (in a product with
  \<^verbatim>\<open>item_size_in_bytes\<close>, or by the cast \<^verbatim>\<open>(unsigned int)src_size.y\<close>) keeps the word.
  Signed overflow, which C++ leaves undefined, is modelled as the same wrap-around.\<close>

type_synonym int32_t = "32 word"
type_synonym unsigned_int = "32 word"

text \<open>\<^verbatim>\<open>Vector2i\<close> (declared outside this header): two \<^verbatim>\<open>int\<close> coordinates.\<close>

record Vector2i =
  x :: int32_t
  y :: int32_t

text \<open>Memory is a map from addresses to bytes; an address is a natural number. A
  \<^verbatim>\<open>Span<uint8_t>\<close> (declared outside this header) is a pointer and a number of elements:
  \<^verbatim>\<open>data()\<close> and \<^verbatim>\<open>size()\<close>, the latter of type \<^verbatim>\<open>size_t\<close>.\<close>

type_synonym memory = "nat \<Rightarrow> uint8_t"

record Span =
  data :: nat
  size_span :: nat

text \<open>Modelled from the spec: \<^verbatim>\<open>Span::overlaps\<close> is declared in \<^verbatim>\<open>util/span.h\<close>, which is
  not part of the sources at hand. The spec says that source and destination buffers must
  not overlap: two spans overlap when some address belongs to both.\<close>

definition overlaps :: "Span \<Rightarrow> Span \<Rightarrow> bool" where
  "overlaps a b \<longleftrightarrow>
     max (data a) (data b) < min (data a + size_span a) (data b + size_span b)"

section \<open>Copying a packed block into an atlas\<close>

text \<open>The outcomes of a call that are not a normal return: a failed \<^verbatim>\<open>ZN_ASSERT\<close>, and the
  two ways in which \<^verbatim>\<open>memcpy\<close> has undefined behaviour, an access outside the span it
  works on and a copy between ranges that overlap.\<close>

datatype fault = AssertionFailed | OutOfBounds | OverlappingCopy

text \<open>The six assertions of lines 152 to 158, as the code computes them: the sums and
  products are those of 32-bit words, and \<^verbatim>\<open>size()\<close> is compared with the unsigned value of
  the product.\<close>

definition debug_assertions ::
  "Span \<Rightarrow> Vector2i \<Rightarrow> Span \<Rightarrow> Vector2i \<Rightarrow> Vector2i \<Rightarrow> unsigned_int \<Rightarrow> bool" where
  "debug_assertions dst dst_size src src_size dst_pos item_size_in_bytes \<longleftrightarrow>
     (0 \<le> sint (x src_size) \<and> 0 \<le> sint (y src_size)) \<and>
     (0 \<le> sint (x dst_size) \<and> 0 \<le> sint (y dst_size)) \<and>
     (0 \<le> sint (x dst_pos) \<and> 0 \<le> sint (y dst_pos) \<and>
      sint (x dst_pos + x src_size) \<le> sint (x dst_size) \<and>
      sint (y dst_pos + y src_size) \<le> sint (y dst_size)) \<and>
     size_span src = unat (x src_size * y src_size * item_size_in_bytes) \<and>
     size_span dst = unat (x dst_size * y dst_size * item_size_in_bytes) \<and>
     \<not> overlaps src dst"

text \<open>\<^verbatim>\<open>memcpy(dst_p, src_p, n)\<close> inside the two spans: the \<open>n\<close> bytes read must lie in
  \<open>src\<close>, the \<open>n\<close> bytes written in \<open>dst\<close>, and the two ranges must be disjoint.\<close>

definition memcpy :: "memory \<Rightarrow> Span \<Rightarrow> Span \<Rightarrow> nat \<Rightarrow> nat \<Rightarrow> nat \<Rightarrow> fault + memory" where
  "memcpy m dst src dst_p src_p n =
     (if \<not> (data dst \<le> dst_p \<and> dst_p + n \<le> data dst + size_span dst \<and>
             data src \<le> src_p \<and> src_p + n \<le> data src + size_span src)
      then Inl OutOfBounds
      else if dst_p < src_p + n \<and> src_p < dst_p + n then Inl OverlappingCopy
      else Inr (\<lambda>a. if dst_p \<le> a \<and> a < dst_p + n then m (src_p + (a - dst_p)) else m a))"

text \<open>The loop of lines 165 to 169. The counter \<open>src_y\<close> runs from 0 to
  \<^verbatim>\<open>(unsigned int)src_size.y\<close>, here \<open>n\<close>, and stays below \<open>2 ^ 32\<close>, so it is a natural
  number; the two pointers advance by one row each.\<close>

function copy_rows ::
  "memory \<Rightarrow> Span \<Rightarrow> Span \<Rightarrow> nat \<Rightarrow> nat \<Rightarrow> nat \<Rightarrow> nat \<Rightarrow> nat \<Rightarrow> nat \<Rightarrow> fault + memory" where
  "copy_rows m dst src src_row_size dst_row_size n src_y dst_p src_p =
     (if src_y < n then
        (case memcpy m dst src dst_p src_p src_row_size of
           Inl e \<Rightarrow> Inl e
         | Inr m' \<Rightarrow>
             copy_rows m' dst src src_row_size dst_row_size n (src_y + 1)
               (dst_p + dst_row_size) (src_p + src_row_size))
      else Inr m)"
  by pat_completeness auto
termination
  by (relation "measure (\<lambda>(m, dst, src, src_row_size, dst_row_size, n, src_y, dst_p, src_p). n - src_y)")
    auto

text \<open>\<^verbatim>\<open>copy_2d_region_from_packed_to_atlased\<close>. The first argument tells whether
  \<^verbatim>\<open>DEBUG_ENABLED\<close> is defined, the second is the memory before the call; the result is
  the memory after it.\<close>

definition copy_2d_region_from_packed_to_atlased ::
  "bool \<Rightarrow> memory \<Rightarrow> Span \<Rightarrow> Vector2i \<Rightarrow> Span \<Rightarrow> Vector2i \<Rightarrow> Vector2i \<Rightarrow> unsigned_int
     \<Rightarrow> fault + memory" where
  "copy_2d_region_from_packed_to_atlased debug_enabled m dst dst_size src src_size dst_pos
       item_size_in_bytes =
     (if debug_enabled \<and>
         \<not> debug_assertions dst dst_size src src_size dst_pos item_size_in_bytes
      then Inl AssertionFailed
      else
        let dst_begin = (x dst_pos + y dst_pos * x dst_size) * item_size_in_bytes;
            src_row_size = x src_size * item_size_in_bytes;
            dst_row_size = x dst_size * item_size_in_bytes
        in copy_rows m dst src (unat src_row_size) (unat dst_row_size) (unat (y src_size)) 0
             (data dst + unat dst_begin) (data src))"

text \<open>The preconditions as the specification states them, over the integers: the sizes are
  not negative, the destination region lies inside the destination, each buffer has exactly
  as many bytes as its dimensions and the item size give, and the buffers do not overlap.
  They differ from \<^const>\<open>debug_assertions\<close> only in that their sums and products do not
  wrap around.\<close>

definition preconditions ::
  "Span \<Rightarrow> Vector2i \<Rightarrow> Span \<Rightarrow> Vector2i \<Rightarrow> Vector2i \<Rightarrow> unsigned_int \<Rightarrow> bool" where
  "preconditions dst dst_size src src_size dst_pos item_size_in_bytes \<longleftrightarrow>
     (0 \<le> sint (x src_size) \<and> 0 \<le> sint (y src_size)) \<and>
     (0 \<le> sint (x dst_size) \<and> 0 \<le> sint (y dst_size)) \<and>
     (0 \<le> sint (x dst_pos) \<and> 0 \<le> sint (y dst_pos) \<and>
      sint (x dst_pos) + sint (x src_size) \<le> sint (x dst_size) \<and>
      sint (y dst_pos) + sint (y src_size) \<le> sint (y dst_size)) \<and>
     int (size_span src) = sint (x src_size) * sint (y src_size) * uint item_size_in_bytes \<and>
     int (size_span dst) = sint (x dst_size) * sint (y dst_size) * uint item_size_in_bytes \<and>
     \<not> overlaps src dst"

text \<open>None of the sums and products that the assertions form leaves the range of its
  32-bit type.\<close>

definition no_wraparound :: "Vector2i \<Rightarrow> Vector2i \<Rightarrow> Vector2i \<Rightarrow> unsigned_int \<Rightarrow> bool" where
  "no_wraparound dst_size src_size dst_pos item_size_in_bytes \<longleftrightarrow>
     sint (x dst_pos) + sint (x src_size) < 2 ^ 31 \<and>
     sint (y dst_pos) + sint (y src_size) < 2 ^ 31 \<and>
     sint (x src_size) * sint (y src_size) * uint item_size_in_bytes < 2 ^ 32 \<and>
     sint (x dst_size) * sint (y dst_size) * uint item_size_in_bytes < 2 ^ 32"

text \<open>The offset of byte \<open>b\<close> of the pixel in column \<open>i\<close> and row \<open>j\<close> of a buffer whose
  rows hold \<open>x size2\<close> pixels: \<^verbatim>\<open>(j * size.x + i) * item_size_in_bytes + b\<close>.\<close>

definition byte_index :: "Vector2i \<Rightarrow> unsigned_int \<Rightarrow> nat \<Rightarrow> nat \<Rightarrow> nat \<Rightarrow> nat" where
  "byte_index size2 item_size_in_bytes i j b =
     (j * unat (x size2) + i) * unat item_size_in_bytes + b"

text \<open>What the specification asks of a call that started in memory \<open>m\<close> and ended with
  \<open>r\<close>. First: the call returns, and byte \<open>b\<close> of every source pixel \<open>(i, j)\<close> is a byte
  of the source, has its place in the destination at pixel
  \<^verbatim>\<open>(dst_pos.x + i, dst_pos.y + j)\<close>, and is found there afterwards.\<close>

definition copies_every_pixel ::
  "memory \<Rightarrow> fault + memory \<Rightarrow> Span \<Rightarrow> Vector2i \<Rightarrow> Span \<Rightarrow> Vector2i \<Rightarrow> Vector2i
     \<Rightarrow> unsigned_int \<Rightarrow> bool" where
  "copies_every_pixel m r dst dst_size src src_size dst_pos item_size_in_bytes \<longleftrightarrow>
     (case r of
        Inl e \<Rightarrow> False
      | Inr m' \<Rightarrow>
          \<forall>i j b. i < unat (x src_size) \<and> j < unat (y src_size) \<and> b < unat item_size_in_bytes \<longrightarrow>
            byte_index src_size item_size_in_bytes i j b < size_span src \<and>
            byte_index dst_size item_size_in_bytes
              (unat (x dst_pos) + i) (unat (y dst_pos) + j) b < size_span dst \<and>
            m' (data dst + byte_index dst_size item_size_in_bytes
                  (unat (x dst_pos) + i) (unat (y dst_pos) + j) b)
              = m (data src + byte_index src_size item_size_in_bytes i j b))"

text \<open>Second: the call returns, and every byte of a destination pixel \<open>(i, j)\<close> outside the
  rectangle \<^verbatim>\<open>[dst_pos.x, dst_pos.x + src_size.x) x [dst_pos.y, dst_pos.y + src_size.y)\<close>
  is what it was.\<close>

definition keeps_other_pixels ::
  "memory \<Rightarrow> fault + memory \<Rightarrow> Span \<Rightarrow> Vector2i \<Rightarrow> Vector2i \<Rightarrow> Vector2i
     \<Rightarrow> unsigned_int \<Rightarrow> bool" where
  "keeps_other_pixels m r dst dst_size src_size dst_pos item_size_in_bytes \<longleftrightarrow>
     (case r of
        Inl e \<Rightarrow> False
      | Inr m' \<Rightarrow>
          \<forall>i j b. i < unat (x dst_size) \<and> j < unat (y dst_size) \<and> b < unat item_size_in_bytes \<and>
              \<not> (unat (x dst_pos) \<le> i \<and> i < unat (x dst_pos) + unat (x src_size) \<and>
                 unat (y dst_pos) \<le> j \<and> j < unat (y dst_pos) + unat (y src_size)) \<longrightarrow>
            m' (data dst + byte_index dst_size item_size_in_bytes i j b)
              = m (data dst + byte_index dst_size item_size_in_bytes i j b))"

section \<open>Side of the square grid that holds a number of items\<close>

text \<open>\<^verbatim>\<open>get_square_grid_size_from_item_count\<close> computes in \<^verbatim>\<open>double\<close>. The finite values
  of that type (IEEE 754 binary64) are the reals \<open>m * 2 ^ e\<close> with a mantissa \<open>m\<close> of at
  most 53 bits and an exponent \<open>e\<close> from \<open>- 1074\<close> to \<open>971\<close>.\<close>

definition is_double :: "real \<Rightarrow> bool" where
  "is_double v \<longleftrightarrow>
     (\<exists>m e. \<bar>m\<bar> < 2 ^ 53 \<and> - 1074 \<le> e \<and> e \<le> 971 \<and> v = real_of_int m * 2 powi e)"

text \<open>A correctly rounded operation returns a \<^verbatim>\<open>double\<close> nearest to the exact result \<open>r\<close>;
  which of two nearest values it returns is left open.\<close>

definition nearest_double :: "real \<Rightarrow> real \<Rightarrow> bool" where
  "nearest_double r d \<longleftrightarrow> is_double d \<and> (\<forall>d'. is_double d' \<longrightarrow> \<bar>r - d\<bar> \<le> \<bar>r - d'\<bar>)"

text \<open>Line 145: \<^verbatim>\<open>int(Math::ceil(Math::sqrt(double(item_count))))\<close>, returned as
  \<^verbatim>\<open>unsigned int\<close>. \<^verbatim>\<open>Math::sqrt\<close> is declared outside this header and is a parameter
  here: the function from \<^verbatim>\<open>double\<close> to \<^verbatim>\<open>double\<close> that the platform provides. The
  conversion \<^verbatim>\<open>double(item_count)\<close> is exact, every 32-bit count being a \<^verbatim>\<open>double\<close>;
  \<^verbatim>\<open>Math::ceil\<close> returns the least integer not below its argument, which is exact as
  well. The conversion to \<^verbatim>\<open>int\<close> is exact on the integers that \<^verbatim>\<open>int\<close> holds, and those
  are all that a correctly rounded root gives (at most 65536); on others, where C++ leaves
  it undefined, the model keeps the low 32 bits, as the conversion to \<^verbatim>\<open>unsigned int\<close>
  does.\<close>

definition get_square_grid_size_from_item_count ::
  "(real \<Rightarrow> real) \<Rightarrow> unsigned_int \<Rightarrow> unsigned_int" where
  "get_square_grid_size_from_item_count Math_sqrt item_count =
     word_of_int \<lceil>Math_sqrt (real (unat item_count))\<rceil>"

section \<open>Settings and the tile resolution of a LOD\<close>

text \<open>\<^verbatim>\<open>DetailRenderingSettings\<close> (lines 36 to 54), its two constants, and the values its
  members are initialised with.\<close>

record DetailRenderingSettings =
  enabled :: bool
  begin_lod_index :: uint8_t
  tile_resolution_min :: uint8_t
  tile_resolution_max :: uint8_t
  max_deviation_degrees :: uint8_t
  octahedral_encoding_enabled :: bool

definition MIN_DEVIATION_DEGREES :: uint8_t where
  "MIN_DEVIATION_DEGREES = 1"

definition MAX_DEVIATION_DEGREES :: uint8_t where
  "MAX_DEVIATION_DEGREES = 179"

definition default_settings :: DetailRenderingSettings where
  "default_settings = \<lparr>enabled = False, begin_lod_index = 2, tile_resolution_min = 4,
     tile_resolution_max = 8, max_deviation_degrees = 60, octahedral_encoding_enabled = False\<rparr>"

text \<open>Settings are valid when the least tile resolution is not above the greatest and the
  deviation lies between the two constants.\<close>

definition valid_settings :: "DetailRenderingSettings \<Rightarrow> bool" where
  "valid_settings settings \<longleftrightarrow>
     tile_resolution_min settings \<le> tile_resolution_max settings \<and>
     MIN_DEVIATION_DEGREES \<le> max_deviation_degrees settings \<and>
     max_deviation_degrees settings \<le> MAX_DEVIATION_DEGREES"

definition clamp_nat :: "nat \<Rightarrow> nat \<Rightarrow> nat \<Rightarrow> nat" where
  "clamp_nat v lo hi = (if v < lo then lo else if hi < v then hi else v)"

text \<open>Modelled from the spec: the header only declares
  \<^verbatim>\<open>get_detail_texture_tile_resolution_for_lod\<close> (lines 56 and 57); its body is in a file
  that is not among the sources at hand. The specification (4.1, and the comment of lines
  42 and 43): the result is \<^verbatim>\<open>tile_resolution_min\<close> at \<^verbatim>\<open>begin_lod_index\<close>, doubles at each
  following LOD index, and is clamped to the interval from \<^verbatim>\<open>tile_resolution_min\<close> to
  \<^verbatim>\<open>tile_resolution_max\<close>. Below \<^verbatim>\<open>begin_lod_index\<close>, where the specification leaves the
  result undefined or clamped, the model takes no step and so gives the clamped value.\<close>

definition get_detail_texture_tile_resolution_for_lod ::
  "DetailRenderingSettings \<Rightarrow> unsigned_int \<Rightarrow> unsigned_int" where
  "get_detail_texture_tile_resolution_for_lod settings lod_index =
     (let steps = unat lod_index - unat (begin_lod_index settings);
          doubled = unat (tile_resolution_min settings) * 2 ^ steps
      in of_nat (clamp_nat doubled (unat (tile_resolution_min settings))
                   (unat (tile_resolution_max settings))))"

section \<open>The output handle and its completion flag\<close>

text \<open>Images and textures are objects of the host engine; here an object is its identity,
  and a \<^verbatim>\<open>Ref\<close> is empty or refers to an object. \<^verbatim>\<open>DetailImages\<close>, \<^verbatim>\<open>DetailTextures\<close> and
  \<^verbatim>\<open>DetailTextureOutput\<close> are the structs of lines 107 to 141, without texture arrays.\<close>

datatype Image = Image nat

datatype Texture2D = Texture2D nat

type_synonym 'a Ref = "'a option"

record DetailImages =
  atlas :: "Image Ref"
  lookup :: "Image Ref"

record DetailTextures =
  atlas :: "Texture2D Ref"
  lookup :: "Texture2D Ref"

record DetailTextureOutput =
  images :: DetailImages
  textures :: DetailTextures
  valid :: bool

text \<open>A new \<^verbatim>\<open>DetailTextureOutput\<close>: the references are empty and line 140 initialises
  \<^verbatim>\<open>valid\<close> with \<^verbatim>\<open>false\<close>.\<close>

definition new_DetailTextureOutput :: DetailTextureOutput where
  "new_DetailTextureOutput =
     \<lparr>images = \<lparr>DetailImages.atlas = None, DetailImages.lookup = None\<rparr>,
      textures = \<lparr>atlas = None, lookup = None\<rparr>,
      valid = False\<rparr>"

text \<open>Modelled from the spec: atlas and lookup are produced as a pair, and the object owns
  whichever of images and textures was produced (3). The object is populated when the
  atlas and the lookup of its images, or of its textures, are both in place.\<close>

definition populated :: "DetailTextureOutput \<Rightarrow> bool" where
  "populated s \<longleftrightarrow>
     (DetailImages.atlas (images s) \<noteq> None \<and> DetailImages.lookup (images s) \<noteq> None) \<or>
     (atlas (textures s) \<noteq> None \<and> lookup (textures s) \<noteq> None)"

text \<open>The members are public, and \<^verbatim>\<open>valid\<close> is a \<^verbatim>\<open>std::atomic_bool\<close>: any thread can store
  images, store textures, store either value to the flag, and load the flag. An access is
  one of these operations together with the thread that issues it.\<close>

type_synonym thread = nat

datatype access =
  StoreImages DetailImages | StoreTextures DetailTextures | StoreValid bool | LoadValid

text \<open>Modelled from the spec: the header declares the struct and nothing that accesses it;
  the producer and the consumers are not among the sources at hand. The protocol of the
  specification (3 and 4.6) for an object whose request is served by the thread
  \<open>producer\<close>: only the producer stores, it writes the \<^verbatim>\<open>images\<close> and \<^verbatim>\<open>textures\<close> fields
  before it publishes, it publishes by storing true to the flag of a populated object, once,
  and nothing is stored after that; any thread may poll the flag. An access that the
  protocol does not allow has no successor state.\<close>

fun step :: "thread \<Rightarrow> thread \<times> access \<Rightarrow> DetailTextureOutput \<Rightarrow> DetailTextureOutput option" where
  "step producer (t, StoreImages i) s =
     (if t = producer \<and> \<not> valid s then Some (s\<lparr>images := i\<rparr>) else None)"
| "step producer (t, StoreTextures tex) s =
     (if t = producer \<and> \<not> valid s then Some (s\<lparr>textures := tex\<rparr>) else None)"
| "step producer (t, StoreValid v) s =
     (if t = producer \<and> v \<and> \<not> valid s \<and> populated s then Some (s\<lparr>valid := v\<rparr>) else None)"
| "step producer (t, LoadValid) s = Some s"

text \<open>The states an object goes through under a sequence of accesses, the first state
  included; \<open>None\<close> when the protocol refuses one of them.\<close>

fun run ::
  "thread \<Rightarrow> DetailTextureOutput \<Rightarrow> (thread \<times> access) list \<Rightarrow> DetailTextureOutput list option" where
  "run producer s [] = Some [s]"
| "run producer s (a # as) =
     (case step producer a s of
        None \<Rightarrow> None
      | Some s' \<Rightarrow> map_option ((#) s) (run producer s' as))"

text \<open>How often the flag goes from false to true, and from true to false, along a sequence
  of states.\<close>

fun rises :: "DetailTextureOutput list \<Rightarrow> nat" where
  "rises (s # s' # tr) = (if \<not> valid s \<and> valid s' then 1 else 0) + rises (s' # tr)"
| "rises tr = 0"

fun falls :: "DetailTextureOutput list \<Rightarrow> nat" where
  "falls (s # s' # tr) = (if valid s \<and> \<not> valid s' then 1 else 0) + falls (s' # tr)"
| "falls tr = 0"

text \<open>A run to look at: thread 0 produces, threads 1 and 2 poll.\<close>

definition example_images :: DetailImages where
  "example_images = \<lparr>DetailImages.atlas = Some (Image 1), DetailImages.lookup = Some (Image 2)\<rparr>"

definition example_accesses :: "(thread \<times> access) list" where
  "example_accesses =
     [(1, LoadValid), (0, StoreImages example_images), (2, LoadValid), (0, StoreValid True),
      (1, LoadValid)]"

definition example_states :: "DetailTextureOutput list" where
  "example_states =
     [new_DetailTextureOutput,
      new_DetailTextureOutput,
      new_DetailTextureOutput\<lparr>images := example_images\<rparr>,
      new_DetailTextureOutput\<lparr>images := example_images\<rparr>,
      new_DetailTextureOutput\<lparr>images := example_images, valid := True\<rparr>,
      new_DetailTextureOutput\<lparr>images := example_images, valid := True\<rparr>]"

section \<open>Cells and cell iterators\<close>

text \<open>\<^verbatim>\<open>CurrentCellInfo\<close> (lines 81 to 86): the fixed array of \<^verbatim>\<open>MAX_TRIANGLES\<close> indices is a
  list, and \<^verbatim>\<open>Vector3i\<close> (declared outside this header) has three \<^verbatim>\<open>int\<close> coordinates.\<close>

datatype Vector3i = Vector3i int32_t int32_t int32_t

definition MAX_TRIANGLES :: nat where
  "MAX_TRIANGLES = 5"

record CurrentCellInfo =
  triangle_begin_indices :: "uint32_t list"
  triangle_count :: uint32_t
  position :: Vector3i

text \<open>\<^verbatim>\<open>ICellIterator\<close> (lines 88 to 94) has three pure virtual functions. An implementation
  with internal states of type \<open>'s\<close> gives, for each of them, what it returns and the state
  it leaves: \<^verbatim>\<open>get_count\<close> is \<^verbatim>\<open>const\<close>, \<^verbatim>\<open>next\<close> takes the caller's \<^verbatim>\<open>info\<close> and hands
  it back, \<^verbatim>\<open>rewind\<close> only changes the state.\<close>

record 's ICellIterator =
  get_count :: "'s \<Rightarrow> unsigned_int"
  "next" :: "'s \<Rightarrow> CurrentCellInfo \<Rightarrow> bool \<times> CurrentCellInfo \<times> 's"
  rewind :: "'s \<Rightarrow> 's"

text \<open>Modelled from the spec: the header has no implementation of \<^verbatim>\<open>ICellIterator\<close>, and
  those of the repository are not among the sources at hand. The contract of the
  specification (4.2), call by call, for the states \<open>usable\<close> that an iterator can be in: the
  iterator goes over a fixed sequence of cells \<open>cells_of s\<close> with a cursor \<open>cursor s\<close>;
  \<^verbatim>\<open>get_count\<close> returns the number of cells; \<^verbatim>\<open>rewind\<close> puts the cursor on the first cell;
  \<^verbatim>\<open>next\<close> on a cursor before the end returns true, writes the cell under the cursor to
  \<^verbatim>\<open>info\<close> and advances; \<^verbatim>\<open>next\<close> on a cursor at the end returns false. What \<^verbatim>\<open>next\<close>
  does after that is left open.\<close>

definition contract ::
  "'s ICellIterator \<Rightarrow> ('s \<Rightarrow> bool) \<Rightarrow> ('s \<Rightarrow> CurrentCellInfo list) \<Rightarrow> ('s \<Rightarrow> nat) \<Rightarrow> bool" where
  "contract it usable cells_of cursor \<longleftrightarrow>
     (\<forall>s. usable s \<longrightarrow>
        unat (get_count it s) = length (cells_of s) \<and>
        usable (rewind it s) \<and> cells_of (rewind it s) = cells_of s \<and> cursor (rewind it s) = 0 \<and>
        (\<forall>info. cursor s \<le> length (cells_of s) \<longrightarrow>
           (case next it s info of (ok, info', s') \<Rightarrow>
              usable s' \<and> cells_of s' = cells_of s \<and>
              (if cursor s < length (cells_of s)
               then ok \<and> info' = cells_of s ! cursor s \<and> cursor s' = Suc (cursor s)
               else \<not> ok))))"

text \<open>A full iteration, \<^verbatim>\<open>while (it.next(info))\<close>, collects the cells of the calls that
  returned true and stops at the first call that returns false. It need not stop for an
  arbitrary implementation, so it runs on fuel: one unit for each call of \<^verbatim>\<open>next\<close>, and
  \<open>None\<close> when the fuel is used up before \<^verbatim>\<open>next\<close> has returned false.\<close>

fun iterate ::
  "'s ICellIterator \<Rightarrow> nat \<Rightarrow> 's \<Rightarrow> CurrentCellInfo \<Rightarrow> (CurrentCellInfo list \<times> 's) option" where
  "iterate it 0 s info = None"
| "iterate it (Suc fuel) s info =
     (case next it s info of (ok, info', s') \<Rightarrow>
        if ok then map_option (\<lambda>(cells, t). (info' # cells, t)) (iterate it fuel s' info')
        else Some ([], s'))"

text \<open>Modelled from the spec: the dense traversal that the specification names (9), an
  iterator over a stored sequence of cells. Its state is the sequence and the cursor. Two
  cells to run it on.\<close>

definition list_iterator :: "(CurrentCellInfo list \<times> nat) ICellIterator" where
  "list_iterator =
     \<lparr>get_count = (\<lambda>(cells, pos). of_nat (length cells)),
      next = (\<lambda>(cells, pos) info.
        if pos < length cells then (True, cells ! pos, (cells, Suc pos))
        else (False, info, (cells, pos))),
      rewind = (\<lambda>(cells, pos). (cells, 0))\<rparr>"

definition cell_a :: CurrentCellInfo where
  "cell_a = \<lparr>triangle_begin_indices = [0, 3, 0, 0, 0], triangle_count = 2,
     position = Vector3i 0 0 0\<rparr>"

definition cell_b :: CurrentCellInfo where
  "cell_b = \<lparr>triangle_begin_indices = [6, 0, 0, 0, 0], triangle_count = 1,
     position = Vector3i 1 0 0\<rparr>"

section \<open>The detail sampler\<close>

text \<open>Modelled from the spec: the header only declares \<^verbatim>\<open>compute_detail_texture_data\<close>
  (lines 101 to 105); its body is in a file that is not among the sources at hand. The
  model follows the algorithm of the specification (4.3) cell by cell. What the algorithm
  computes in floating point or asks of its collaborators is a parameter: the projection
  axis of a cell (step 1), the normal of a pixel of the tile after rasterization, sampling
  and the deviation clamp (steps 2 to 5), the two encodings, of which one gives 3 bytes and
  the other 2 (step 6), and whether a cell contains edited voxels (step 7). The type \<open>'n\<close>
  is that of a normal.\<close>

record 'n collaborators =
  projection_axis :: "CurrentCellInfo \<Rightarrow> uint8_t"
  clamped_normal :: "CurrentCellInfo \<Rightarrow> uint8_t \<Rightarrow> nat \<Rightarrow> nat \<Rightarrow> 'n"
  encode_raw :: "'n \<Rightarrow> uint8_t \<times> uint8_t \<times> uint8_t"
  encode_octahedral :: "'n \<Rightarrow> uint8_t \<times> uint8_t"
  has_edits :: "CurrentCellInfo \<Rightarrow> bool"

definition bytes_per_pixel :: "bool \<Rightarrow> nat" where
  "bytes_per_pixel octahedral_encoding = (if octahedral_encoding then 2 else 3)"

definition encode_normal :: "'n collaborators \<Rightarrow> bool \<Rightarrow> 'n \<Rightarrow> uint8_t list" where
  "encode_normal c octahedral_encoding n =
     (if octahedral_encoding then (case encode_octahedral c n of (u, v) \<Rightarrow> [u, v])
      else (case encode_raw c n of (r, g, b) \<Rightarrow> [r, g, b]))"

text \<open>The pixels of a tile, row by row, and the encoded normals of the tile of a cell.\<close>

definition tile_pixels :: "nat \<Rightarrow> (nat \<times> nat) list" where
  "tile_pixels tile_resolution =
     concat (map (\<lambda>j. map (\<lambda>i. (i, j)) [0 ..< tile_resolution]) [0 ..< tile_resolution])"

definition tile_normals ::
  "'n collaborators \<Rightarrow> nat \<Rightarrow> bool \<Rightarrow> CurrentCellInfo \<Rightarrow> uint8_t list" where
  "tile_normals c tile_resolution octahedral_encoding cell =
     concat (map (\<lambda>(i, j). encode_normal c octahedral_encoding
                   (clamped_normal c cell (projection_axis c cell) i j))
               (tile_pixels tile_resolution))"

definition cell_tile :: "'n collaborators \<Rightarrow> CurrentCellInfo \<Rightarrow> Tile" where
  "cell_tile c cell =
     (case position cell of Vector3i px py pz \<Rightarrow>
        \<lparr>Tile.x = ucast px, Tile.y = ucast py, z = ucast pz, axis = projection_axis c cell\<rparr>)"

text \<open>Modelled from the spec: the loop over the cells that the iterator yields, in their
  order, \<open>cell_index\<close> counting them. With \<^verbatim>\<open>edited_tiles_only\<close> a cell without edited voxels
  is skipped; every other cell adds its tile, the block of its normals, and with
  \<^verbatim>\<open>edited_tiles_only\<close> its index to \<^verbatim>\<open>tile_indices\<close>. Step 7 of the specification is read
  with the comment of lines 69 to 71: \<^verbatim>\<open>tile_indices\<close> holds the indices of the tiles that
  are stored, and stays empty when all tiles are.\<close>

fun sample_cells ::
  "'n collaborators \<Rightarrow> nat \<Rightarrow> bool \<Rightarrow> bool \<Rightarrow> nat \<Rightarrow> CurrentCellInfo list
     \<Rightarrow> DetailTextureData \<Rightarrow> DetailTextureData" where
  "sample_cells c tile_resolution octahedral_encoding edited_tiles_only cell_index [] d = d"
| "sample_cells c tile_resolution octahedral_encoding edited_tiles_only cell_index (cell # cells) d =
     (if edited_tiles_only \<and> \<not> has_edits c cell
      then sample_cells c tile_resolution octahedral_encoding edited_tiles_only
             (cell_index + 1) cells d
      else sample_cells c tile_resolution octahedral_encoding edited_tiles_only
             (cell_index + 1) cells
             (d\<lparr>normals := normals d @ tile_normals c tile_resolution octahedral_encoding cell,
                tiles := tiles d @ [cell_tile c cell],
                tile_indices := (if edited_tiles_only then tile_indices d @ [of_nat cell_index]
                                 else tile_indices d)\<rparr>))"

text \<open>Modelled from the spec: \<^verbatim>\<open>compute_detail_texture_data\<close> fills a
  \<^verbatim>\<open>DetailTextureData\<close> that starts empty. The arguments that only the collaborators use
  (mesh buffers, generator, voxel data, origin, size, LOD index, deviation) are left to
  them.\<close>

definition compute_detail_texture_data ::
  "'n collaborators \<Rightarrow> CurrentCellInfo list \<Rightarrow> unsigned_int \<Rightarrow> bool \<Rightarrow> bool
     \<Rightarrow> DetailTextureData" where
  "compute_detail_texture_data c cells tile_resolution octahedral_encoding edited_tiles_only =
     sample_cells c (unat tile_resolution) octahedral_encoding edited_tiles_only 0 cells
       \<lparr>normals = [], tiles = [], tile_indices = []\<rparr>"

text \<open>Collaborators to run the sampler on: they keep the cells with one triangle.\<close>

definition example_collaborators :: "nat collaborators" where
  "example_collaborators =
     \<lparr>projection_axis = (\<lambda>cell. 2),
      clamped_normal = (\<lambda>cell a i j. i + j),
      encode_raw = (\<lambda>n. (of_nat n, 0, 255)),
      encode_octahedral = (\<lambda>n. (of_nat n, 128)),
      has_edits = (\<lambda>cell. triangle_count cell = 1)\<rparr>"

section \<open>Clearing texture data\<close>

text \<open>Claim C10: for every \<^verbatim>\<open>DetailTextureData\<close> value, \<^verbatim>\<open>clear()\<close> leaves
  \<^verbatim>\<open>normals\<close> and \<^verbatim>\<open>tiles\<close> empty and leaves \<^verbatim>\<open>tile_indices\<close> as it was: a
  populated index remap survives the call.\<close>

theorem clear_keeps_tile_indices:
  "normals (clear d) = [] \<and> tiles (clear d) = [] \<and> tile_indices (clear d) = tile_indices d"
  by (simp add: clear_def)

section \<open>Word arithmetic that does not wrap\<close>

lemma sint_nonneg_unat:
  fixes w :: "32 word"
  assumes "0 \<le> sint w"
  shows "sint w = int (unat w)"
proof -
  have s: "sint w = signed_take_bit 31 (uint w)" by (simp add: sint_uint)
  have "uint w < 2 ^ 31"
  proof (rule ccontr)
    assume "\<not> uint w < 2 ^ 31"
    then have "2 ^ 31 \<le> uint w" by simp
    then have "signed_take_bit 31 (uint w) \<le> uint w - 2 ^ Suc 31"
      by (rule signed_take_bit_int_less_eq)
    moreover have "uint w < 2 ^ 32" using uint_lt2p [of w] by simp
    ultimately show False using assms s by simp
  qed
  moreover have "- (2 ^ 31) \<le> uint w"
    by (rule order_trans [OF _ uint_ge_0]) simp
  ultimately have "signed_take_bit 31 (uint w) = uint w"
    using signed_take_bit_int_eq_self [of 31 "uint w"] by blast
  then show ?thesis using s by (simp only: uint_nat)
qed

lemma sint_add_nonneg:
  fixes a b :: "32 word"
  assumes "0 \<le> sint a" "0 \<le> sint b" "sint a + sint b < 2 ^ 31"
  shows "sint (a + b) = sint a + sint b"
proof -
  have "signed_take_bit 31 (sint a + sint b) = sint a + sint b"
    using assms by (intro signed_take_bit_int_eq_self) simp_all
  then show ?thesis by (simp add: sint_word_add)
qed

lemma unat_of_nat32:
  "n < 2 ^ 32 \<Longrightarrow> unat (of_nat n :: 32 word) = n"
  by (simp add: unat_of_nat)

lemma unat_prod3:
  fixes a b c :: "32 word"
  assumes "unat a * unat b * unat c < 2 ^ 32"
  shows "unat (a * b * c) = unat a * unat b * unat c"
proof -
  have "a * b * c = of_nat (unat a * unat b * unat c)" by simp
  then show ?thesis using assms unat_of_nat32 by metis
qed

lemma unat_prod2:
  fixes a b :: "32 word"
  assumes "unat a * unat b < 2 ^ 32"
  shows "unat (a * b) = unat a * unat b"
  using assms by (simp add: unat_mult_lem [symmetric])

lemma unat_begin:
  fixes a b c d :: "32 word"
  assumes "(unat a + unat b * unat c) * unat d < 2 ^ 32"
  shows "unat ((a + b * c) * d) = (unat a + unat b * unat c) * unat d"
proof -
  have "(a + b * c) * d = of_nat ((unat a + unat b * unat c) * unat d)" by simp
  then show ?thesis using assms unat_of_nat32 by metis
qed

section \<open>The copy loop\<close>

text \<open>A \<^const>\<open>memcpy\<close> inside two spans that do not overlap succeeds.\<close>

lemma memcpy_Inr:
  assumes "data dst \<le> dst_p" "dst_p + n \<le> data dst + size_span dst"
    "data src \<le> src_p" "src_p + n \<le> data src + size_span src" "\<not> overlaps src dst"
  shows "memcpy m dst src dst_p src_p n =
    Inr (\<lambda>a. if dst_p \<le> a \<and> a < dst_p + n then m (src_p + (a - dst_p)) else m a)"
  using assms unfolding memcpy_def overlaps_def by (auto simp: max_def min_def split: if_splits)

lemma copy_rows_spec:
  assumes "d = n - src_y"
    and "data dst \<le> dst_p" and "data src \<le> src_p"
    and "\<not> overlaps src dst"
    and "ws \<le> wd"
    and "src_y < n \<Longrightarrow> dst_p + (n - src_y - 1) * wd + ws \<le> data dst + size_span dst"
    and "src_p + (n - src_y) * ws \<le> data src + size_span src"
  shows "\<exists>m'. copy_rows m dst src ws wd n src_y dst_p src_p = Inr m' \<and>
     (\<forall>k < n - src_y. \<forall>c < ws. m' (dst_p + k * wd + c) = m (src_p + k * ws + c)) \<and>
     (\<forall>a. (\<forall>k < n - src_y. a < dst_p + k * wd \<or> dst_p + k * wd + ws \<le> a) \<longrightarrow> m' a = m a)"
  using assms
proof (induction d arbitrary: m src_y dst_p src_p)
  case 0
  then have "\<not> src_y < n" by simp
  then show ?case by simp
next
  case (Suc d')
  from Suc.prems(1) have lt: "src_y < n" and d': "d' = n - (src_y + 1)" and nd: "n - src_y = Suc d'" by simp_all
  have last: "dst_p + d' * wd + ws \<le> data dst + size_span dst"
    using Suc.prems(6) [OF lt] d' by simp
  have srcb: "src_p + ws + d' * ws \<le> data src + size_span src"
    using Suc.prems(7) nd by simp
  define m1 where "m1 = (\<lambda>a. if dst_p \<le> a \<and> a < dst_p + ws then m (src_p + (a - dst_p)) else m a)"
  have cp: "memcpy m dst src dst_p src_p ws = Inr m1"
    unfolding m1_def
    using Suc.prems(2,3,4) last srcb by (intro memcpy_Inr) simp_all
  have ih_last: "src_y + 1 < n \<Longrightarrow>
      dst_p + wd + (n - (src_y + 1) - 1) * wd + ws \<le> data dst + size_span dst"
  proof -
    assume "src_y + 1 < n"
    then have "d' = Suc (n - (src_y + 1) - 1)" using d' by simp
    then have "d' * wd = wd + (n - (src_y + 1) - 1) * wd" by (metis mult_Suc)
    then show ?thesis using last by simp
  qed
  have ih_src: "src_p + ws + (n - (src_y + 1)) * ws \<le> data src + size_span src"
    using srcb d' by simp
  from Suc.IH [OF d' _ _ Suc.prems(4,5) ih_last ih_src, of m1] Suc.prems(2,3)
  obtain m' where
    run: "copy_rows m1 dst src ws wd n (src_y + 1) (dst_p + wd) (src_p + ws) = Inr m'"
    and cont: "\<And>k c. k < d' \<Longrightarrow> c < ws \<Longrightarrow>
        m' (dst_p + wd + k * wd + c) = m1 (src_p + ws + k * ws + c)"
    and frame: "\<And>a. (\<forall>k < d'. a < dst_p + wd + k * wd \<or> dst_p + wd + k * wd + ws \<le> a)
        \<Longrightarrow> m' a = m1 a"
    using d' by auto
  have res: "copy_rows m dst src ws wd n src_y dst_p src_p = Inr m'"
    using lt cp run by (subst copy_rows.simps) simp
  have disj: "\<And>s. data src \<le> s \<Longrightarrow> s < data src + size_span src \<Longrightarrow>
      \<not> (dst_p \<le> s \<and> s < dst_p + ws)"
    using Suc.prems(2,4) last unfolding overlaps_def by (auto simp: max_def min_def split: if_splits)
  have content: "m' (dst_p + k * wd + c) = m (src_p + k * ws + c)"
    if "k < Suc d'" "c < ws" for k c
  proof (cases k)
    case 0
    have "m' (dst_p + c) = m1 (dst_p + c)"
      using that(2) Suc.prems(5) by (intro frame) auto
    then show ?thesis using 0 that(2) by (simp add: m1_def)
  next
    case (Suc k')
    with that have k': "k' < d'" by simp
    have "m' (dst_p + wd + k' * wd + c) = m1 (src_p + ws + k' * ws + c)"
      using cont [OF k' that(2)] .
    moreover have "m1 (src_p + ws + k' * ws + c) = m (src_p + ws + k' * ws + c)"
    proof -
      have "Suc k' * ws \<le> d' * ws" using k' by (intro mult_le_mono1) simp
      then have "src_p + ws + k' * ws + c < data src + size_span src"
        using srcb that(2) by simp
      moreover have "data src \<le> src_p + ws + k' * ws + c" using Suc.prems(3) by simp
      ultimately have "\<not> (dst_p \<le> src_p + ws + k' * ws + c \<and> src_p + ws + k' * ws + c < dst_p + ws)"
        using disj by blast
      then show ?thesis unfolding m1_def by (simp only: if_False)
    qed
    ultimately show ?thesis using Suc by (simp add: add.assoc add.left_commute)
  qed
  have fr: "m' a = m a"
    if out: "\<forall>k < Suc d'. a < dst_p + k * wd \<or> dst_p + k * wd + ws \<le> a" for a
  proof -
    have "\<forall>k < d'. a < dst_p + wd + k * wd \<or> dst_p + wd + k * wd + ws \<le> a"
    proof (intro allI impI)
      fix k assume "k < d'"
      then have "Suc k < Suc d'" by simp
      with out have "a < dst_p + Suc k * wd \<or> dst_p + Suc k * wd + ws \<le> a" by blast
      then show "a < dst_p + wd + k * wd \<or> dst_p + wd + k * wd + ws \<le> a"
        by (simp add: add.assoc)
    qed
    then have "m' a = m1 a" by (rule frame)
    moreover from out have "a < dst_p + 0 * wd \<or> dst_p + 0 * wd + ws \<le> a" by blast
    then have "m1 a = m a" by (auto simp: m1_def)
    ultimately show ?thesis by simp
  qed
  show ?case using res content fr nd by auto
qed

section \<open>From the preconditions to the run of the function\<close>

lemma preconditions_nat:
  assumes "preconditions dst dst_size src src_size dst_pos isz"
  shows "unat (x dst_pos) + unat (x src_size) \<le> unat (x dst_size)"
    and "unat (y dst_pos) + unat (y src_size) \<le> unat (y dst_size)"
    and "size_span src = unat (x src_size) * unat (y src_size) * unat isz"
    and "size_span dst = unat (x dst_size) * unat (y dst_size) * unat isz"
    and "\<not> overlaps src dst"
    and "unat (x dst_size) < 2 ^ 31" and "unat (y dst_size) < 2 ^ 31"
proof -
  from assms have nn: "0 \<le> sint (x src_size)" "0 \<le> sint (y src_size)"
      "0 \<le> sint (x dst_size)" "0 \<le> sint (y dst_size)"
      "0 \<le> sint (x dst_pos)" "0 \<le> sint (y dst_pos)"
    and le: "sint (x dst_pos) + sint (x src_size) \<le> sint (x dst_size)"
      "sint (y dst_pos) + sint (y src_size) \<le> sint (y dst_size)"
    and sz: "int (size_span src) = sint (x src_size) * sint (y src_size) * uint isz"
      "int (size_span dst) = sint (x dst_size) * sint (y dst_size) * uint isz"
    and ov: "\<not> overlaps src dst"
    unfolding preconditions_def by blast+
  note u = nn [THEN sint_nonneg_unat]
  from le(1) have "int (unat (x dst_pos) + unat (x src_size)) \<le> int (unat (x dst_size))"
    unfolding u by simp
  then show "unat (x dst_pos) + unat (x src_size) \<le> unat (x dst_size)"
    by (simp only: of_nat_le_iff)
  from le(2) have "int (unat (y dst_pos) + unat (y src_size)) \<le> int (unat (y dst_size))"
    unfolding u by simp
  then show "unat (y dst_pos) + unat (y src_size) \<le> unat (y dst_size)"
    by (simp only: of_nat_le_iff)
  from sz(1) have "int (size_span src) = int (unat (x src_size) * unat (y src_size) * unat isz)"
    unfolding u uint_nat by simp
  then show "size_span src = unat (x src_size) * unat (y src_size) * unat isz"
    by (simp only: of_nat_eq_iff)
  from sz(2) have "int (size_span dst) = int (unat (x dst_size) * unat (y dst_size) * unat isz)"
    unfolding u uint_nat by simp
  then show "size_span dst = unat (x dst_size) * unat (y dst_size) * unat isz"
    by (simp only: of_nat_eq_iff)
  show "\<not> overlaps src dst" by (fact ov)
  have "int (unat (x dst_size)) < 2 ^ 31" using sint_lt [of "x dst_size"] u(3) by simp
  then have "int (unat (x dst_size)) < int (2 ^ 31)" by simp
  then show "unat (x dst_size) < 2 ^ 31" by (simp only: of_nat_less_iff)
  have "int (unat (y dst_size)) < 2 ^ 31" using sint_lt [of "y dst_size"] u(4) by simp
  then have "int (unat (y dst_size)) < int (2 ^ 31)" by simp
  then show "unat (y dst_size) < 2 ^ 31" by (simp only: of_nat_less_iff)
qed

lemma preconditions_imp_assertions:
  assumes pre: "preconditions dst dst_size src src_size dst_pos isz"
    and fit: "size_span dst < 2 ^ 32"
  shows "debug_assertions dst dst_size src src_size dst_pos isz"
proof -
  note n = preconditions_nat [OF pre]
  from pre have nn: "0 \<le> sint (x src_size)" "0 \<le> sint (y src_size)"
      "0 \<le> sint (x dst_size)" "0 \<le> sint (y dst_size)"
      "0 \<le> sint (x dst_pos)" "0 \<le> sint (y dst_pos)"
    and le: "sint (x dst_pos) + sint (x src_size) \<le> sint (x dst_size)"
      "sint (y dst_pos) + sint (y src_size) \<le> sint (y dst_size)"
    unfolding preconditions_def by blast+
  have ax: "sint (x dst_pos + x src_size) = sint (x dst_pos) + sint (x src_size)"
    using nn le(1) sint_lt [of "x dst_size"] by (intro sint_add_nonneg) simp_all
  have ay: "sint (y dst_pos + y src_size) = sint (y dst_pos) + sint (y src_size)"
    using nn le(2) sint_lt [of "y dst_size"] by (intro sint_add_nonneg) simp_all
  have dfit: "unat (x dst_size) * unat (y dst_size) * unat isz < 2 ^ 32"
    using fit n(4) by simp
  have "unat (x src_size) \<le> unat (x dst_size)" "unat (y src_size) \<le> unat (y dst_size)"
    using n(1,2) by simp_all
  then have "unat (x src_size) * unat (y src_size) \<le> unat (x dst_size) * unat (y dst_size)"
    by (rule mult_le_mono)
  then have "unat (x src_size) * unat (y src_size) * unat isz
      \<le> unat (x dst_size) * unat (y dst_size) * unat isz"
    by (rule mult_le_mono1)
  from this dfit have sfit: "unat (x src_size) * unat (y src_size) * unat isz < 2 ^ 32"
    by (rule le_less_trans)
  have s: "size_span src = unat (x src_size * y src_size * isz)"
    using n(3) unat_prod3 [OF sfit] by simp
  have d: "size_span dst = unat (x dst_size * y dst_size * isz)"
    using n(4) unat_prod3 [OF dfit] by simp
  show ?thesis
    unfolding debug_assertions_def using nn le ax ay s d n(5) by simp
qed

lemma copy_region_run:
  assumes pre: "preconditions dst dst_size src src_size dst_pos isz"
    and fit: "size_span dst < 2 ^ 32"
  defines "B \<equiv> data dst + (unat (x dst_pos) + unat (y dst_pos) * unat (x dst_size)) * unat isz"
    and "ws \<equiv> unat (x src_size) * unat isz"
    and "wd \<equiv> unat (x dst_size) * unat isz"
  shows "\<exists>m'. copy_2d_region_from_packed_to_atlased dbg m dst dst_size src src_size dst_pos isz
      = Inr m' \<and>
     (\<forall>k < unat (y src_size). \<forall>c < ws. m' (B + k * wd + c) = m (data src + k * ws + c)) \<and>
     (\<forall>a. (\<forall>k < unat (y src_size). a < B + k * wd \<or> B + k * wd + ws \<le> a) \<longrightarrow> m' a = m a)"
proof -
  note n = preconditions_nat [OF pre]
  have asserts: "debug_assertions dst dst_size src src_size dst_pos isz"
    using pre fit by (rule preconditions_imp_assertions)
  let ?n = "unat (y src_size)"
  have unfold: "copy_2d_region_from_packed_to_atlased dbg m dst dst_size src src_size dst_pos isz
      = copy_rows m dst src (unat (x src_size * isz)) (unat (x dst_size * isz)) ?n 0
          (data dst + unat ((x dst_pos + y dst_pos * x dst_size) * isz)) (data src)"
    unfolding copy_2d_region_from_packed_to_atlased_def using asserts by (simp add: Let_def)
  show ?thesis
  proof (cases "?n = 0")
    case True
    then show ?thesis unfolding unfold by simp
  next
    case False
    then have ypos: "1 \<le> unat (y dst_size)" using n(2) by simp
    have dfit: "unat (x dst_size) * unat (y dst_size) * unat isz < 2 ^ 32"
      using fit n(4) by simp
    have "unat (x dst_size) * 1 \<le> unat (x dst_size) * unat (y dst_size)"
      using ypos by (intro mult_le_mono2)
    then have wd_le: "wd \<le> unat (x dst_size) * unat (y dst_size) * unat isz"
      unfolding wd_def by (simp add: mult_le_mono1)
    have ws_le: "ws \<le> wd" unfolding ws_def wd_def using n(1) by (simp add: mult_le_mono1)
    from wd_le dfit have wd_lt: "wd < 2 ^ 32" by (rule le_less_trans)
    from ws_le wd_lt have ws_lt: "ws < 2 ^ 32" by (rule le_less_trans)
    have wd_eq: "unat (x dst_size * isz) = wd"
      unfolding wd_def using wd_lt [unfolded wd_def] by (rule unat_prod2)
    have ws_eq: "unat (x src_size * isz) = ws"
      unfolding ws_def using ws_lt [unfolded ws_def] by (rule unat_prod2)
    \<comment> \<open>the last row of the region ends inside the destination\<close>
    have rows: "unat (y dst_pos) + (?n - 1) + 1 \<le> unat (y dst_size)" using n(2) False by simp
    have "(unat (y dst_pos) + (?n - 1)) * unat (x dst_size) + unat (x dst_size)
        \<le> unat (y dst_size) * unat (x dst_size)"
    proof -
      have "(unat (y dst_pos) + (?n - 1) + 1) * unat (x dst_size)
          \<le> unat (y dst_size) * unat (x dst_size)"
        using rows by (rule mult_le_mono1)
      then show ?thesis by (simp add: algebra_simps)
    qed
    then have "(unat (y dst_pos) + (?n - 1)) * unat (x dst_size)
        + (unat (x dst_pos) + unat (x src_size)) \<le> unat (y dst_size) * unat (x dst_size)"
      using n(1) by simp
    then have "((unat (y dst_pos) + (?n - 1)) * unat (x dst_size)
        + (unat (x dst_pos) + unat (x src_size))) * unat isz
        \<le> unat (y dst_size) * unat (x dst_size) * unat isz"
      by (rule mult_le_mono1)
    then have last: "(unat (x dst_pos) + unat (y dst_pos) * unat (x dst_size)) * unat isz
        + (?n - 1) * wd + ws \<le> size_span dst"
      unfolding n(4) wd_def ws_def by (simp add: algebra_simps)
    then have "(unat (x dst_pos) + unat (y dst_pos) * unat (x dst_size)) * unat isz < 2 ^ 32"
      using fit by simp
    then have b_eq: "data dst + unat ((x dst_pos + y dst_pos * x dst_size) * isz) = B"
      unfolding B_def by (simp add: unat_begin)
    have src_end: "data src + (?n - 0) * ws \<le> data src + size_span src"
      unfolding n(3) ws_def by (simp add: algebra_simps)
    have dst_end: "0 < ?n \<Longrightarrow> B + (?n - 0 - 1) * wd + ws \<le> data dst + size_span dst"
      using last unfolding B_def by simp
    have "\<exists>m'. copy_rows m dst src ws wd ?n 0 B (data src) = Inr m' \<and>
       (\<forall>k < ?n - 0. \<forall>c < ws. m' (B + k * wd + c) = m (data src + k * ws + c)) \<and>
       (\<forall>a. (\<forall>k < ?n - 0. a < B + k * wd \<or> B + k * wd + ws \<le> a) \<longrightarrow> m' a = m a)"
      by (rule copy_rows_spec [OF refl _ _ n(5) ws_le dst_end src_end]) (simp_all add: B_def)
    then show ?thesis unfolding unfold wd_eq ws_eq b_eq by simp
  qed
qed

lemma byte_index_less:
  fixes i j b w h n :: nat
  assumes "i < w" "j < h" "b < n"
  shows "(j * w + i) * n + b < w * h * n"
proof -
  have "(j * w + i) * n + b < (j * w + i) * n + n" using assms(3) by simp
  also have "\<dots> = (j * w + i + 1) * n" by (simp add: algebra_simps)
  also have "\<dots> \<le> (j * w + w) * n" using assms(1) by (intro mult_le_mono1) simp
  also have "\<dots> = (j + 1) * w * n" by (simp add: algebra_simps)
  also have "\<dots> \<le> h * w * n" using assms(2) by (intro mult_le_mono1) simp
  finally show ?thesis by (simp add: mult.commute)
qed

lemma pixel_in_row:
  fixes i j b r and dx px sx n :: nat
  assumes b: "b < n" and i: "i < dx" and fit: "px + sx \<le> dx"
    and lo: "(r * dx + px) * n \<le> (j * dx + i) * n + b"
    and hi: "(j * dx + i) * n + b < (r * dx + px + sx) * n"
  shows "j = r \<and> px \<le> i \<and> i < px + sx"
proof -
  have "(j * dx + i) * n \<le> (j * dx + i) * n + b" by simp
  from this hi have "(j * dx + i) * n < (r * dx + px + sx) * n" by (rule le_less_trans)
  then have up: "j * dx + i < r * dx + px + sx" by (simp only: mult_less_cancel2)
  from lo b have "(r * dx + px) * n < (j * dx + i) * n + n" by simp
  also have "\<dots> = (j * dx + i + 1) * n" by (simp add: algebra_simps)
  finally have "r * dx + px < j * dx + i + 1" by (simp only: mult_less_cancel2)
  then have low: "r * dx + px \<le> j * dx + i" by simp
  have "j * dx < (r + 1) * dx" using up fit by (simp add: algebra_simps)
  then have "j < r + 1" by (simp only: mult_less_cancel2)
  moreover have "r * dx < (j + 1) * dx" using low i by (simp add: algebra_simps)
  then have "r < j + 1" by (simp only: mult_less_cancel2)
  ultimately have "j = r" by simp
  then show ?thesis using up low by simp
qed

lemma assertions_imp_preconditions:
  assumes a: "debug_assertions dst dst_size src src_size dst_pos isz"
    and nw: "no_wraparound dst_size src_size dst_pos isz"
  shows "preconditions dst dst_size src src_size dst_pos isz"
proof -
  from a have nn: "0 \<le> sint (x src_size)" "0 \<le> sint (y src_size)"
      "0 \<le> sint (x dst_size)" "0 \<le> sint (y dst_size)"
      "0 \<le> sint (x dst_pos)" "0 \<le> sint (y dst_pos)"
    and le: "sint (x dst_pos + x src_size) \<le> sint (x dst_size)"
      "sint (y dst_pos + y src_size) \<le> sint (y dst_size)"
    and sz: "size_span src = unat (x src_size * y src_size * isz)"
      "size_span dst = unat (x dst_size * y dst_size * isz)"
    and ov: "\<not> overlaps src dst"
    unfolding debug_assertions_def by blast+
  from nw have w: "sint (x dst_pos) + sint (x src_size) < 2 ^ 31"
      "sint (y dst_pos) + sint (y src_size) < 2 ^ 31"
      "sint (x src_size) * sint (y src_size) * uint isz < 2 ^ 32"
      "sint (x dst_size) * sint (y dst_size) * uint isz < 2 ^ 32"
    unfolding no_wraparound_def by blast+
  note u = nn [THEN sint_nonneg_unat]
  have ax: "sint (x dst_pos + x src_size) = sint (x dst_pos) + sint (x src_size)"
    using nn(5,1) w(1) by (rule sint_add_nonneg)
  have ay: "sint (y dst_pos + y src_size) = sint (y dst_pos) + sint (y src_size)"
    using nn(6,2) w(2) by (rule sint_add_nonneg)
  from w(3) have "int (unat (x src_size) * unat (y src_size) * unat isz) < int (2 ^ 32)"
    unfolding u uint_nat by simp
  then have "unat (x src_size) * unat (y src_size) * unat isz < 2 ^ 32"
    by (simp only: of_nat_less_iff)
  then have "unat (x src_size * y src_size * isz)
      = unat (x src_size) * unat (y src_size) * unat isz"
    by (rule unat_prod3)
  then have s: "int (size_span src) = sint (x src_size) * sint (y src_size) * uint isz"
    unfolding sz u uint_nat by simp
  from w(4) have "int (unat (x dst_size) * unat (y dst_size) * unat isz) < int (2 ^ 32)"
    unfolding u uint_nat by simp
  then have "unat (x dst_size) * unat (y dst_size) * unat isz < 2 ^ 32"
    by (simp only: of_nat_less_iff)
  then have "unat (x dst_size * y dst_size * isz)
      = unat (x dst_size) * unat (y dst_size) * unat isz"
    by (rule unat_prod3)
  then have d: "int (size_span dst) = sint (x dst_size) * sint (y dst_size) * uint isz"
    unfolding sz u uint_nat by simp
  show ?thesis
    unfolding preconditions_def using nn le [unfolded ax ay] s d ov by simp
qed

section \<open>The copy writes every source pixel to its place\<close>

text \<open>Claim C1, as amended: for every call of \<^verbatim>\<open>copy_2d_region_from_packed_to_atlased\<close>
  that satisfies the preconditions (sizes not negative, destination region inside the
  destination, both buffer sizes equal to their dimensions times the item size, buffers not
  overlapping) and whose destination has fewer than \<open>2 ^ 32\<close> bytes, in a debug build as in a
  release build, the call returns, and for every pixel \<open>(i, j)\<close> of the source and every
  byte \<open>b\<close> below the item size, the byte at offset \<^verbatim>\<open>(j * src_size.x + i) * item_size + b\<close>
  of the source is afterwards at offset
  \<^verbatim>\<open>((dst_pos.y + j) * dst_size.x + dst_pos.x + i) * item_size + b\<close> of the destination.\<close>

theorem copy_region_copies_every_pixel:
  assumes pre: "preconditions dst dst_size src src_size dst_pos item_size_in_bytes"
    and fit: "size_span dst < 2 ^ 32"
  shows "copies_every_pixel m
      (copy_2d_region_from_packed_to_atlased debug_enabled m dst dst_size src src_size dst_pos
         item_size_in_bytes)
      dst dst_size src src_size dst_pos item_size_in_bytes"
proof -
  note n = preconditions_nat [OF pre]
  let ?I = "unat item_size_in_bytes"
  let ?B = "data dst + (unat (x dst_pos) + unat (y dst_pos) * unat (x dst_size)) * ?I"
  let ?ws = "unat (x src_size) * ?I" and ?wd = "unat (x dst_size) * ?I"
  from copy_region_run [OF pre fit, of debug_enabled m] obtain m' where
    run: "copy_2d_region_from_packed_to_atlased debug_enabled m dst dst_size src src_size dst_pos
        item_size_in_bytes = Inr m'"
    and cont: "\<And>k c. k < unat (y src_size) \<Longrightarrow> c < ?ws \<Longrightarrow>
        m' (?B + k * ?wd + c) = m (data src + k * ?ws + c)"
    by blast
  have "byte_index src_size item_size_in_bytes i j b < size_span src \<and>
      byte_index dst_size item_size_in_bytes (unat (x dst_pos) + i) (unat (y dst_pos) + j) b
        < size_span dst \<and>
      m' (data dst + byte_index dst_size item_size_in_bytes
            (unat (x dst_pos) + i) (unat (y dst_pos) + j) b)
        = m (data src + byte_index src_size item_size_in_bytes i j b)"
    if i: "i < unat (x src_size)" and j: "j < unat (y src_size)" and b: "b < ?I" for i j b
  proof (intro conjI)
    show "byte_index src_size item_size_in_bytes i j b < size_span src"
      unfolding byte_index_def n(3) using i j b by (rule byte_index_less)
    have "unat (x dst_pos) + i < unat (x dst_size)" "unat (y dst_pos) + j < unat (y dst_size)"
      using i j n(1,2) by simp_all
    then show "byte_index dst_size item_size_in_bytes (unat (x dst_pos) + i)
        (unat (y dst_pos) + j) b < size_span dst"
      unfolding byte_index_def n(4) using b by (rule byte_index_less)
    have "i * ?I + b < i * ?I + ?I" using b by simp
    also have "\<dots> = (i + 1) * ?I" by (simp add: algebra_simps)
    also have "\<dots> \<le> ?ws" using i by (intro mult_le_mono1) simp
    finally have c: "i * ?I + b < ?ws" .
    have "m' (?B + j * ?wd + (i * ?I + b)) = m (data src + j * ?ws + (i * ?I + b))"
      using j c by (rule cont)
    moreover have "?B + j * ?wd + (i * ?I + b)
        = data dst + byte_index dst_size item_size_in_bytes
            (unat (x dst_pos) + i) (unat (y dst_pos) + j) b"
      unfolding byte_index_def by (simp add: algebra_simps)
    moreover have "data src + j * ?ws + (i * ?I + b)
        = data src + byte_index src_size item_size_in_bytes i j b"
      unfolding byte_index_def by (simp add: algebra_simps)
    ultimately show "m' (data dst + byte_index dst_size item_size_in_bytes
          (unat (x dst_pos) + i) (unat (y dst_pos) + j) b)
        = m (data src + byte_index src_size item_size_in_bytes i j b)"
      by simp
  qed
  then show ?thesis unfolding copies_every_pixel_def run by simp
qed

text \<open>The case the specification names: a 2 by 2 block of 3-byte pixels copied into a 4 by
  4 destination at (1, 1).\<close>

theorem copy_region_copies_every_pixel_witness:
  "preconditions \<lparr>data = 100, size_span = 48\<rparr> \<lparr>x = 4, y = 4\<rparr> \<lparr>data = 0, size_span = 12\<rparr>
      \<lparr>x = 2, y = 2\<rparr> \<lparr>x = 1, y = 1\<rparr> 3 \<and>
   size_span \<lparr>data = 100, size_span = 48\<rparr> < 2 ^ 32 \<and>
   copies_every_pixel (\<lambda>a. of_nat a)
     (copy_2d_region_from_packed_to_atlased True (\<lambda>a. of_nat a) \<lparr>data = 100, size_span = 48\<rparr>
        \<lparr>x = 4, y = 4\<rparr> \<lparr>data = 0, size_span = 12\<rparr> \<lparr>x = 2, y = 2\<rparr> \<lparr>x = 1, y = 1\<rparr> 3)
     \<lparr>data = 100, size_span = 48\<rparr> \<lparr>x = 4, y = 4\<rparr> \<lparr>data = 0, size_span = 12\<rparr>
     \<lparr>x = 2, y = 2\<rparr> \<lparr>x = 1, y = 1\<rparr> 3"
proof -
  have p: "preconditions \<lparr>data = 100, size_span = 48\<rparr> \<lparr>x = 4, y = 4\<rparr>
      \<lparr>data = 0, size_span = 12\<rparr> \<lparr>x = 2, y = 2\<rparr> \<lparr>x = 1, y = 1\<rparr> 3"
    by (simp add: preconditions_def overlaps_def)
  have f: "size_span \<lparr>data = 100, size_span = 48\<rparr> < 2 ^ 32" by simp
  from p f copy_region_copies_every_pixel [OF p f] show ?thesis by blast
qed

text \<open>Without the bound on the destination the claim fails, because the offsets are
  computed in \<^verbatim>\<open>unsigned int\<close>. Both inputs have a destination of 32768 by 32769 pixels of
  4 bytes and a source of one pixel to be placed at (0, 32768), whose offset in the
  destination is \<open>2 ^ 32\<close>; \<^verbatim>\<open>dst_begin\<close> wraps to 0. In the first input the destination has
  its 4295098368 bytes and the preconditions hold over the integers: a release build
  writes the pixel at offset 0, a debug build stops at the assertion on \<^verbatim>\<open>dst.size()\<close>,
  whose product has wrapped to 131072. In the second input the destination has 131072
  bytes, which is what that assertion asks for: all assertions hold, the pixel is written
  at offset 0, and the offset the claim names is not in the destination.\<close>

theorem copy_region_wraps_counterexample:
  "(preconditions \<lparr>data = 0, size_span = 4295098368\<rparr> \<lparr>x = 32768, y = 32769\<rparr>
      \<lparr>data = 4295098368, size_span = 4\<rparr> \<lparr>x = 1, y = 1\<rparr> \<lparr>x = 0, y = 32768\<rparr> 4 \<and>
    \<not> copies_every_pixel (\<lambda>a. if a < 4295098368 then 0 else 1)
      (copy_2d_region_from_packed_to_atlased False (\<lambda>a. if a < 4295098368 then 0 else 1)
      \<lparr>data = 0, size_span = 4295098368\<rparr> \<lparr>x = 32768, y = 32769\<rparr>
      \<lparr>data = 4295098368, size_span = 4\<rparr> \<lparr>x = 1, y = 1\<rparr> \<lparr>x = 0, y = 32768\<rparr> 4)
      \<lparr>data = 0, size_span = 4295098368\<rparr> \<lparr>x = 32768, y = 32769\<rparr>
      \<lparr>data = 4295098368, size_span = 4\<rparr> \<lparr>x = 1, y = 1\<rparr> \<lparr>x = 0, y = 32768\<rparr> 4 \<and>
    (copy_2d_region_from_packed_to_atlased True (\<lambda>a. if a < 4295098368 then 0 else 1)
      \<lparr>data = 0, size_span = 4295098368\<rparr> \<lparr>x = 32768, y = 32769\<rparr>
      \<lparr>data = 4295098368, size_span = 4\<rparr> \<lparr>x = 1, y = 1\<rparr> \<lparr>x = 0, y = 32768\<rparr> 4) = Inl AssertionFailed) \<and>
   (debug_assertions \<lparr>data = 0, size_span = 131072\<rparr> \<lparr>x = 32768, y = 32769\<rparr>
      \<lparr>data = 131072, size_span = 4\<rparr> \<lparr>x = 1, y = 1\<rparr> \<lparr>x = 0, y = 32768\<rparr> 4 \<and>
    \<not> copies_every_pixel (\<lambda>a. if a < 131072 then 0 else 1)
      (copy_2d_region_from_packed_to_atlased True (\<lambda>a. if a < 131072 then 0 else 1)
      \<lparr>data = 0, size_span = 131072\<rparr> \<lparr>x = 32768, y = 32769\<rparr>
      \<lparr>data = 131072, size_span = 4\<rparr> \<lparr>x = 1, y = 1\<rparr> \<lparr>x = 0, y = 32768\<rparr> 4)
      \<lparr>data = 0, size_span = 131072\<rparr> \<lparr>x = 32768, y = 32769\<rparr>
      \<lparr>data = 131072, size_span = 4\<rparr> \<lparr>x = 1, y = 1\<rparr> \<lparr>x = 0, y = 32768\<rparr> 4)"
proof (intro conjI)
  show "preconditions \<lparr>data = 0, size_span = 4295098368\<rparr> \<lparr>x = 32768, y = 32769\<rparr>
      \<lparr>data = 4295098368, size_span = 4\<rparr> \<lparr>x = 1, y = 1\<rparr> \<lparr>x = 0, y = 32768\<rparr> 4"
    by (simp add: preconditions_def overlaps_def)
  show "(copy_2d_region_from_packed_to_atlased True (\<lambda>a. if a < 4295098368 then 0 else 1)
      \<lparr>data = 0, size_span = 4295098368\<rparr> \<lparr>x = 32768, y = 32769\<rparr>
      \<lparr>data = 4295098368, size_span = 4\<rparr> \<lparr>x = 1, y = 1\<rparr> \<lparr>x = 0, y = 32768\<rparr> 4) = Inl AssertionFailed"
    by (simp add: copy_2d_region_from_packed_to_atlased_def debug_assertions_def)
  show "debug_assertions \<lparr>data = 0, size_span = 131072\<rparr> \<lparr>x = 32768, y = 32769\<rparr>
      \<lparr>data = 131072, size_span = 4\<rparr> \<lparr>x = 1, y = 1\<rparr> \<lparr>x = 0, y = 32768\<rparr> 4"
    by (simp add: debug_assertions_def overlaps_def)
  show "\<not> copies_every_pixel (\<lambda>a. if a < 4295098368 then 0 else 1)
      (copy_2d_region_from_packed_to_atlased False (\<lambda>a. if a < 4295098368 then 0 else 1)
      \<lparr>data = 0, size_span = 4295098368\<rparr> \<lparr>x = 32768, y = 32769\<rparr>
      \<lparr>data = 4295098368, size_span = 4\<rparr> \<lparr>x = 1, y = 1\<rparr> \<lparr>x = 0, y = 32768\<rparr> 4)
      \<lparr>data = 0, size_span = 4295098368\<rparr> \<lparr>x = 32768, y = 32769\<rparr>
      \<lparr>data = 4295098368, size_span = 4\<rparr> \<lparr>x = 1, y = 1\<rparr> \<lparr>x = 0, y = 32768\<rparr> 4"
    by (simp add: copies_every_pixel_def copy_2d_region_from_packed_to_atlased_def memcpy_def
        byte_index_def Let_def)
      (rule exI [of _ 0], simp)
  show "\<not> copies_every_pixel (\<lambda>a. if a < 131072 then 0 else 1)
      (copy_2d_region_from_packed_to_atlased True (\<lambda>a. if a < 131072 then 0 else 1)
      \<lparr>data = 0, size_span = 131072\<rparr> \<lparr>x = 32768, y = 32769\<rparr>
      \<lparr>data = 131072, size_span = 4\<rparr> \<lparr>x = 1, y = 1\<rparr> \<lparr>x = 0, y = 32768\<rparr> 4)
      \<lparr>data = 0, size_span = 131072\<rparr> \<lparr>x = 32768, y = 32769\<rparr>
      \<lparr>data = 131072, size_span = 4\<rparr> \<lparr>x = 1, y = 1\<rparr> \<lparr>x = 0, y = 32768\<rparr> 4"
    by (simp add: copies_every_pixel_def copy_2d_region_from_packed_to_atlased_def memcpy_def
        debug_assertions_def overlaps_def byte_index_def Let_def)
      (rule exI [of _ 0], simp)
qed

section \<open>The copy leaves the other destination pixels alone\<close>

text \<open>Claim C2, as amended: for every call that satisfies the preconditions and whose
  destination has fewer than \<open>2 ^ 32\<close> bytes, the call returns, and every byte of every
  destination pixel outside the rectangle
  \<^verbatim>\<open>[dst_pos.x, dst_pos.x + src_size.x) x [dst_pos.y, dst_pos.y + src_size.y)\<close> is unchanged.\<close>

theorem copy_region_keeps_other_pixels:
  assumes pre: "preconditions dst dst_size src src_size dst_pos item_size_in_bytes"
    and fit: "size_span dst < 2 ^ 32"
  shows "keeps_other_pixels m
      (copy_2d_region_from_packed_to_atlased debug_enabled m dst dst_size src src_size dst_pos
         item_size_in_bytes)
      dst dst_size src_size dst_pos item_size_in_bytes"
proof -
  note n = preconditions_nat [OF pre]
  let ?I = "unat item_size_in_bytes"
  let ?B = "data dst + (unat (x dst_pos) + unat (y dst_pos) * unat (x dst_size)) * ?I"
  let ?ws = "unat (x src_size) * ?I" and ?wd = "unat (x dst_size) * ?I"
  from copy_region_run [OF pre fit, of debug_enabled m] obtain m' where
    run: "copy_2d_region_from_packed_to_atlased debug_enabled m dst dst_size src src_size dst_pos
        item_size_in_bytes = Inr m'"
    and frame: "\<And>a. (\<forall>k < unat (y src_size). a < ?B + k * ?wd \<or> ?B + k * ?wd + ?ws \<le> a)
        \<Longrightarrow> m' a = m a"
    by blast
  have "m' (data dst + byte_index dst_size item_size_in_bytes i j b)
      = m (data dst + byte_index dst_size item_size_in_bytes i j b)"
    if i: "i < unat (x dst_size)" and b: "b < ?I"
      and out: "\<not> (unat (x dst_pos) \<le> i \<and> i < unat (x dst_pos) + unat (x src_size) \<and>
                 unat (y dst_pos) \<le> j \<and> j < unat (y dst_pos) + unat (y src_size))"
    for i j b
  proof (rule frame, intro allI impI, rule ccontr)
    fix k
    let ?a = "data dst + byte_index dst_size item_size_in_bytes i j b"
    assume k: "k < unat (y src_size)"
      and "\<not> (?a < ?B + k * ?wd \<or> ?B + k * ?wd + ?ws \<le> ?a)"
    then have "?B + k * ?wd \<le> ?a" "?a < ?B + k * ?wd + ?ws" by simp_all
    then have "((unat (y dst_pos) + k) * unat (x dst_size) + unat (x dst_pos)) * ?I
          \<le> (j * unat (x dst_size) + i) * ?I + b"
      and "(j * unat (x dst_size) + i) * ?I + b
          < ((unat (y dst_pos) + k) * unat (x dst_size) + unat (x dst_pos) + unat (x src_size)) * ?I"
      unfolding byte_index_def by (simp_all add: algebra_simps)
    with b i n(1) have "j = unat (y dst_pos) + k \<and> unat (x dst_pos) \<le> i \<and>
        i < unat (x dst_pos) + unat (x src_size)"
      by (rule pixel_in_row)
    with k out show False by simp
  qed
  then show ?thesis unfolding keeps_other_pixels_def run by simp
qed

theorem copy_region_keeps_other_pixels_witness:
  "preconditions \<lparr>data = 100, size_span = 48\<rparr> \<lparr>x = 4, y = 4\<rparr> \<lparr>data = 0, size_span = 12\<rparr>
      \<lparr>x = 2, y = 2\<rparr> \<lparr>x = 1, y = 1\<rparr> 3 \<and>
   size_span \<lparr>data = 100, size_span = 48\<rparr> < 2 ^ 32 \<and>
   keeps_other_pixels (\<lambda>a. of_nat a)
     (copy_2d_region_from_packed_to_atlased False (\<lambda>a. of_nat a) \<lparr>data = 100, size_span = 48\<rparr>
        \<lparr>x = 4, y = 4\<rparr> \<lparr>data = 0, size_span = 12\<rparr> \<lparr>x = 2, y = 2\<rparr> \<lparr>x = 1, y = 1\<rparr> 3)
     \<lparr>data = 100, size_span = 48\<rparr> \<lparr>x = 4, y = 4\<rparr> \<lparr>x = 2, y = 2\<rparr> \<lparr>x = 1, y = 1\<rparr> 3"
proof -
  have p: "preconditions \<lparr>data = 100, size_span = 48\<rparr> \<lparr>x = 4, y = 4\<rparr>
      \<lparr>data = 0, size_span = 12\<rparr> \<lparr>x = 2, y = 2\<rparr> \<lparr>x = 1, y = 1\<rparr> 3"
    by (simp add: preconditions_def overlaps_def)
  have f: "size_span \<lparr>data = 100, size_span = 48\<rparr> < 2 ^ 32" by simp
  from p f copy_region_keeps_other_pixels [OF p f] show ?thesis by blast
qed

text \<open>On the two inputs above the copy changes byte 0 of pixel (0, 0), which is outside
  the rectangle: the rectangle is the single pixel (0, 32768).\<close>

theorem copy_region_frame_counterexample:
  "(preconditions \<lparr>data = 0, size_span = 4295098368\<rparr> \<lparr>x = 32768, y = 32769\<rparr>
      \<lparr>data = 4295098368, size_span = 4\<rparr> \<lparr>x = 1, y = 1\<rparr> \<lparr>x = 0, y = 32768\<rparr> 4 \<and>
    \<not> isl (copy_2d_region_from_packed_to_atlased False (\<lambda>a. if a < 4295098368 then 0 else 1)
      \<lparr>data = 0, size_span = 4295098368\<rparr> \<lparr>x = 32768, y = 32769\<rparr>
      \<lparr>data = 4295098368, size_span = 4\<rparr> \<lparr>x = 1, y = 1\<rparr> \<lparr>x = 0, y = 32768\<rparr> 4) \<and>
    \<not> keeps_other_pixels (\<lambda>a. if a < 4295098368 then 0 else 1)
      (copy_2d_region_from_packed_to_atlased False (\<lambda>a. if a < 4295098368 then 0 else 1)
      \<lparr>data = 0, size_span = 4295098368\<rparr> \<lparr>x = 32768, y = 32769\<rparr>
      \<lparr>data = 4295098368, size_span = 4\<rparr> \<lparr>x = 1, y = 1\<rparr> \<lparr>x = 0, y = 32768\<rparr> 4)
      \<lparr>data = 0, size_span = 4295098368\<rparr> \<lparr>x = 32768, y = 32769\<rparr>
      \<lparr>x = 1, y = 1\<rparr> \<lparr>x = 0, y = 32768\<rparr> 4) \<and>
   (debug_assertions \<lparr>data = 0, size_span = 131072\<rparr> \<lparr>x = 32768, y = 32769\<rparr>
      \<lparr>data = 131072, size_span = 4\<rparr> \<lparr>x = 1, y = 1\<rparr> \<lparr>x = 0, y = 32768\<rparr> 4 \<and>
    \<not> isl (copy_2d_region_from_packed_to_atlased True (\<lambda>a. if a < 131072 then 0 else 1)
      \<lparr>data = 0, size_span = 131072\<rparr> \<lparr>x = 32768, y = 32769\<rparr>
      \<lparr>data = 131072, size_span = 4\<rparr> \<lparr>x = 1, y = 1\<rparr> \<lparr>x = 0, y = 32768\<rparr> 4) \<and>
    \<not> keeps_other_pixels (\<lambda>a. if a < 131072 then 0 else 1)
      (copy_2d_region_from_packed_to_atlased True (\<lambda>a. if a < 131072 then 0 else 1)
      \<lparr>data = 0, size_span = 131072\<rparr> \<lparr>x = 32768, y = 32769\<rparr>
      \<lparr>data = 131072, size_span = 4\<rparr> \<lparr>x = 1, y = 1\<rparr> \<lparr>x = 0, y = 32768\<rparr> 4)
      \<lparr>data = 0, size_span = 131072\<rparr> \<lparr>x = 32768, y = 32769\<rparr>
      \<lparr>x = 1, y = 1\<rparr> \<lparr>x = 0, y = 32768\<rparr> 4)"
proof (intro conjI)
  show "preconditions \<lparr>data = 0, size_span = 4295098368\<rparr> \<lparr>x = 32768, y = 32769\<rparr>
      \<lparr>data = 4295098368, size_span = 4\<rparr> \<lparr>x = 1, y = 1\<rparr> \<lparr>x = 0, y = 32768\<rparr> 4"
    by (simp add: preconditions_def overlaps_def)
  show "debug_assertions \<lparr>data = 0, size_span = 131072\<rparr> \<lparr>x = 32768, y = 32769\<rparr>
      \<lparr>data = 131072, size_span = 4\<rparr> \<lparr>x = 1, y = 1\<rparr> \<lparr>x = 0, y = 32768\<rparr> 4"
    by (simp add: debug_assertions_def overlaps_def)
  show "\<not> isl (copy_2d_region_from_packed_to_atlased False (\<lambda>a. if a < 4295098368 then 0 else 1)
      \<lparr>data = 0, size_span = 4295098368\<rparr> \<lparr>x = 32768, y = 32769\<rparr>
      \<lparr>data = 4295098368, size_span = 4\<rparr> \<lparr>x = 1, y = 1\<rparr> \<lparr>x = 0, y = 32768\<rparr> 4)"
    by (simp add: copy_2d_region_from_packed_to_atlased_def memcpy_def Let_def)
  show "\<not> isl (copy_2d_region_from_packed_to_atlased True (\<lambda>a. if a < 131072 then 0 else 1)
      \<lparr>data = 0, size_span = 131072\<rparr> \<lparr>x = 32768, y = 32769\<rparr>
      \<lparr>data = 131072, size_span = 4\<rparr> \<lparr>x = 1, y = 1\<rparr> \<lparr>x = 0, y = 32768\<rparr> 4)"
    by (simp add: copy_2d_region_from_packed_to_atlased_def memcpy_def debug_assertions_def
        overlaps_def Let_def)
  show "\<not> keeps_other_pixels (\<lambda>a. if a < 4295098368 then 0 else 1)
      (copy_2d_region_from_packed_to_atlased False (\<lambda>a. if a < 4295098368 then 0 else 1)
      \<lparr>data = 0, size_span = 4295098368\<rparr> \<lparr>x = 32768, y = 32769\<rparr>
      \<lparr>data = 4295098368, size_span = 4\<rparr> \<lparr>x = 1, y = 1\<rparr> \<lparr>x = 0, y = 32768\<rparr> 4)
      \<lparr>data = 0, size_span = 4295098368\<rparr> \<lparr>x = 32768, y = 32769\<rparr>
      \<lparr>x = 1, y = 1\<rparr> \<lparr>x = 0, y = 32768\<rparr> 4"
    by (simp add: keeps_other_pixels_def copy_2d_region_from_packed_to_atlased_def memcpy_def
        byte_index_def Let_def)
      (rule exI [of _ 0], simp, rule exI [of _ 0], simp, rule exI [of _ 0], simp)
  show "\<not> keeps_other_pixels (\<lambda>a. if a < 131072 then 0 else 1)
      (copy_2d_region_from_packed_to_atlased True (\<lambda>a. if a < 131072 then 0 else 1)
      \<lparr>data = 0, size_span = 131072\<rparr> \<lparr>x = 32768, y = 32769\<rparr>
      \<lparr>data = 131072, size_span = 4\<rparr> \<lparr>x = 1, y = 1\<rparr> \<lparr>x = 0, y = 32768\<rparr> 4)
      \<lparr>data = 0, size_span = 131072\<rparr> \<lparr>x = 32768, y = 32769\<rparr>
      \<lparr>x = 1, y = 1\<rparr> \<lparr>x = 0, y = 32768\<rparr> 4"
    by (simp add: keeps_other_pixels_def copy_2d_region_from_packed_to_atlased_def memcpy_def
        debug_assertions_def overlaps_def byte_index_def Let_def)
      (rule exI [of _ 0], simp, rule exI [of _ 0], simp, rule exI [of _ 0], simp)
qed

section \<open>Assertions and memory accesses\<close>

text \<open>Claim C4, as amended. If the preconditions hold and the destination has fewer than
  \<open>2 ^ 32\<close> bytes, then all debug assertions hold and the call returns without a fault, in a
  debug build as in a release build: every \<^verbatim>\<open>memcpy\<close> of the loop stays inside the source
  and the destination. If the preconditions are violated and none of the sums and products
  of the assertions wraps around, a debug build ends in an assertion failure: a fault, not a
  value handed back to the caller.\<close>

theorem copy_region_safety:
  "(preconditions dst dst_size src src_size dst_pos item_size_in_bytes \<and> size_span dst < 2 ^ 32
      \<longrightarrow> debug_assertions dst dst_size src src_size dst_pos item_size_in_bytes \<and>
          (\<exists>m'. copy_2d_region_from_packed_to_atlased debug_enabled m dst dst_size src src_size
                  dst_pos item_size_in_bytes = Inr m')) \<and>
   (no_wraparound dst_size src_size dst_pos item_size_in_bytes \<and>
    \<not> preconditions dst dst_size src src_size dst_pos item_size_in_bytes
      \<longrightarrow> copy_2d_region_from_packed_to_atlased True m dst dst_size src src_size dst_pos
            item_size_in_bytes = Inl AssertionFailed)"
proof (intro conjI impI)
  assume h: "preconditions dst dst_size src src_size dst_pos item_size_in_bytes \<and>
      size_span dst < 2 ^ 32"
  then show "debug_assertions dst dst_size src src_size dst_pos item_size_in_bytes"
    by (simp add: preconditions_imp_assertions)
  from h copy_region_run [of dst dst_size src src_size dst_pos item_size_in_bytes debug_enabled m]
  show "\<exists>m'. copy_2d_region_from_packed_to_atlased debug_enabled m dst dst_size src src_size
      dst_pos item_size_in_bytes = Inr m'"
    by blast
next
  assume "no_wraparound dst_size src_size dst_pos item_size_in_bytes \<and>
      \<not> preconditions dst dst_size src src_size dst_pos item_size_in_bytes"
  then have "\<not> debug_assertions dst dst_size src src_size dst_pos item_size_in_bytes"
    using assertions_imp_preconditions by blast
  then show "copy_2d_region_from_packed_to_atlased True m dst dst_size src src_size dst_pos
      item_size_in_bytes = Inl AssertionFailed"
    by (simp add: copy_2d_region_from_packed_to_atlased_def)
qed

theorem copy_region_safety_witness:
  "(preconditions \<lparr>data = 100, size_span = 48\<rparr> \<lparr>x = 4, y = 4\<rparr> \<lparr>data = 0, size_span = 12\<rparr>
      \<lparr>x = 2, y = 2\<rparr> \<lparr>x = 1, y = 1\<rparr> 3 \<and>
    size_span \<lparr>data = 100, size_span = 48\<rparr> < 2 ^ 32) \<and>
   debug_assertions \<lparr>data = 100, size_span = 48\<rparr> \<lparr>x = 4, y = 4\<rparr> \<lparr>data = 0, size_span = 12\<rparr>
      \<lparr>x = 2, y = 2\<rparr> \<lparr>x = 1, y = 1\<rparr> 3 \<and>
   \<not> isl (copy_2d_region_from_packed_to_atlased True (\<lambda>a. of_nat a)
      \<lparr>data = 100, size_span = 48\<rparr> \<lparr>x = 4, y = 4\<rparr> \<lparr>data = 0, size_span = 12\<rparr>
      \<lparr>x = 2, y = 2\<rparr> \<lparr>x = 1, y = 1\<rparr> 3) \<and>
   (no_wraparound \<lparr>x = 4, y = 4\<rparr> \<lparr>x = 2, y = 2\<rparr> \<lparr>x = 3, y = 3\<rparr> 3 \<and>
    \<not> preconditions \<lparr>data = 100, size_span = 48\<rparr> \<lparr>x = 4, y = 4\<rparr> \<lparr>data = 0, size_span = 12\<rparr>
      \<lparr>x = 2, y = 2\<rparr> \<lparr>x = 3, y = 3\<rparr> 3) \<and>
   copy_2d_region_from_packed_to_atlased True (\<lambda>a. of_nat a)
      \<lparr>data = 100, size_span = 48\<rparr> \<lparr>x = 4, y = 4\<rparr> \<lparr>data = 0, size_span = 12\<rparr>
      \<lparr>x = 2, y = 2\<rparr> \<lparr>x = 3, y = 3\<rparr> 3 = Inl AssertionFailed"
proof -
  have p: "preconditions \<lparr>data = 100, size_span = 48\<rparr> \<lparr>x = 4, y = 4\<rparr>
      \<lparr>data = 0, size_span = 12\<rparr> \<lparr>x = 2, y = 2\<rparr> \<lparr>x = 1, y = 1\<rparr> 3 \<and>
      size_span \<lparr>data = 100, size_span = 48\<rparr> < 2 ^ 32"
    by (simp add: preconditions_def overlaps_def)
  have q: "no_wraparound \<lparr>x = 4, y = 4\<rparr> \<lparr>x = 2, y = 2\<rparr> \<lparr>x = 3, y = 3\<rparr> 3 \<and>
      \<not> preconditions \<lparr>data = 100, size_span = 48\<rparr> \<lparr>x = 4, y = 4\<rparr> \<lparr>data = 0, size_span = 12\<rparr>
        \<lparr>x = 2, y = 2\<rparr> \<lparr>x = 3, y = 3\<rparr> 3"
    by (simp add: no_wraparound_def preconditions_def)
  from p copy_region_safety [of "\<lparr>data = 100, size_span = 48\<rparr>" "\<lparr>x = 4, y = 4\<rparr>"
      "\<lparr>data = 0, size_span = 12\<rparr>" "\<lparr>x = 2, y = 2\<rparr>" "\<lparr>x = 1, y = 1\<rparr>" 3 True "\<lambda>a. of_nat a"]
  have a: "debug_assertions \<lparr>data = 100, size_span = 48\<rparr> \<lparr>x = 4, y = 4\<rparr>
      \<lparr>data = 0, size_span = 12\<rparr> \<lparr>x = 2, y = 2\<rparr> \<lparr>x = 1, y = 1\<rparr> 3 \<and>
      \<not> isl (copy_2d_region_from_packed_to_atlased True (\<lambda>a. of_nat a)
        \<lparr>data = 100, size_span = 48\<rparr> \<lparr>x = 4, y = 4\<rparr> \<lparr>data = 0, size_span = 12\<rparr>
        \<lparr>x = 2, y = 2\<rparr> \<lparr>x = 1, y = 1\<rparr> 3)"
    by auto
  from q copy_region_safety [of "\<lparr>data = 100, size_span = 48\<rparr>" "\<lparr>x = 4, y = 4\<rparr>"
      "\<lparr>data = 0, size_span = 12\<rparr>" "\<lparr>x = 2, y = 2\<rparr>" "\<lparr>x = 3, y = 3\<rparr>" 3 True "\<lambda>a. of_nat a"]
  have b: "copy_2d_region_from_packed_to_atlased True (\<lambda>a. of_nat a)
      \<lparr>data = 100, size_span = 48\<rparr> \<lparr>x = 4, y = 4\<rparr> \<lparr>data = 0, size_span = 12\<rparr>
      \<lparr>x = 2, y = 2\<rparr> \<lparr>x = 3, y = 3\<rparr> 3 = Inl AssertionFailed"
    by blast
  from p q a b show ?thesis by blast
qed

text \<open>Both bounds are needed. With the destination of 4295098368 bytes above the
  preconditions hold and the assertion on \<^verbatim>\<open>dst.size()\<close> fails, its product having
  wrapped to 131072. With a destination of 131072 bytes, the same dimensions and the
  source pixel to be placed at (0, 1), the preconditions are violated, yet every assertion
  holds, and the \<^verbatim>\<open>memcpy\<close> writes 4 bytes at offset 131072, past the end of the
  destination.\<close>

theorem copy_region_safety_counterexample:
  "(preconditions \<lparr>data = 0, size_span = 4295098368\<rparr> \<lparr>x = 32768, y = 32769\<rparr>
      \<lparr>data = 4295098368, size_span = 4\<rparr> \<lparr>x = 1, y = 1\<rparr> \<lparr>x = 0, y = 32768\<rparr> 4 \<and>
    \<not> debug_assertions \<lparr>data = 0, size_span = 4295098368\<rparr> \<lparr>x = 32768, y = 32769\<rparr>
      \<lparr>data = 4295098368, size_span = 4\<rparr> \<lparr>x = 1, y = 1\<rparr> \<lparr>x = 0, y = 32768\<rparr> 4) \<and>
   (debug_assertions \<lparr>data = 0, size_span = 131072\<rparr> \<lparr>x = 32768, y = 32769\<rparr>
      \<lparr>data = 131072, size_span = 4\<rparr> \<lparr>x = 1, y = 1\<rparr> \<lparr>x = 0, y = 1\<rparr> 4 \<and>
    \<not> preconditions \<lparr>data = 0, size_span = 131072\<rparr> \<lparr>x = 32768, y = 32769\<rparr>
      \<lparr>data = 131072, size_span = 4\<rparr> \<lparr>x = 1, y = 1\<rparr> \<lparr>x = 0, y = 1\<rparr> 4 \<and>
    (copy_2d_region_from_packed_to_atlased True (\<lambda>a. 0)
      \<lparr>data = 0, size_span = 131072\<rparr> \<lparr>x = 32768, y = 32769\<rparr>
      \<lparr>data = 131072, size_span = 4\<rparr> \<lparr>x = 1, y = 1\<rparr> \<lparr>x = 0, y = 1\<rparr> 4) = Inl OutOfBounds)"
  by (simp add: preconditions_def debug_assertions_def overlaps_def
      copy_2d_region_from_packed_to_atlased_def memcpy_def Let_def)

section \<open>The grid side is the least integer whose square holds the items\<close>

text \<open>Integers of up to 53 bits and their multiples of \<open>2 ^ - 20\<close> are values of
  \<^verbatim>\<open>double\<close>; so is every item count.\<close>

lemma is_double_int:
  assumes "\<bar>k\<bar> < 2 ^ 53"
  shows "is_double (real_of_int k)"
  unfolding is_double_def using assms by (intro exI [of _ k] exI [of _ 0]) simp

lemma is_double_frac20:
  assumes "\<bar>k\<bar> < 2 ^ 53"
  shows "is_double (real_of_int k / 2 ^ 20)"
  unfolding is_double_def using assms
  by (intro exI [of _ k] exI [of _ "- 20"]) (simp add: power_int_minus_divide)

lemma item_count_is_double: "is_double (real (unat (c :: 32 word)))"
proof -
  have "uint c < 2 ^ 32" using uint_lt2p [of c] by simp
  also have "\<dots> < (2 :: int) ^ 53" by simp
  finally have "\<bar>uint c\<bar> < 2 ^ 53" by simp
  then have "is_double (real_of_int (uint c))" by (rule is_double_int)
  moreover have "real_of_int (uint c) = real (unat c)"
    by (simp only: uint_nat of_int_of_nat_eq)
  ultimately show ?thesis by (simp only:)
qed

text \<open>There are finitely many values of \<^verbatim>\<open>double\<close>, so every real has a nearest one: a
  correctly rounded square root exists for every argument.\<close>

lemma finite_doubles: "finite {d. is_double d}"
proof -
  have "{d. is_double d} \<subseteq>
      (\<lambda>(m, e). real_of_int m * 2 powi e) ` ({- (2 ^ 53) <..< 2 ^ 53} \<times> {- 1074 .. 971})"
    unfolding is_double_def by (auto simp: abs_less_iff image_iff intro!: bexI)
  moreover have "finite ((\<lambda>(m, e). real_of_int m * 2 powi e) `
      ({- (2 ^ 53) <..< 2 ^ 53 :: int} \<times> {- 1074 .. 971 :: int}))"
    by (intro finite_imageI finite_cartesian_product) simp_all
  ultimately show ?thesis by (rule finite_subset)
qed

lemma nearest_double_exists: "\<exists>d. nearest_double r d"
proof -
  let ?D = "{d. is_double d}"
  have "is_double 0" using is_double_int [of 0] by simp
  then have ne: "?D \<noteq> {}" by blast
  have "finite ((\<lambda>d. \<bar>r - d\<bar>) ` ?D)" using finite_doubles by (rule finite_imageI)
  moreover have "(\<lambda>d. \<bar>r - d\<bar>) ` ?D \<noteq> {}" using ne by simp
  ultimately have "Min ((\<lambda>d. \<bar>r - d\<bar>) ` ?D) \<in> (\<lambda>d. \<bar>r - d\<bar>) ` ?D" by (rule Min_in)
  then obtain d where d: "is_double d" "\<bar>r - d\<bar> = Min ((\<lambda>d. \<bar>r - d\<bar>) ` ?D)" by auto
  have "\<bar>r - d\<bar> \<le> \<bar>r - d'\<bar>" if "is_double d'" for d'
    unfolding d(2) using finite_doubles that by (intro Min_le finite_imageI) auto
  with d(1) show ?thesis unfolding nearest_double_def by blast
qed

text \<open>Rounding the square root of a count below \<open>2 ^ 32\<close> to a nearest \<^verbatim>\<open>double\<close> does
  not change its ceiling: the root of a square is an integer and is its own rounding, and
  any other root is at least \<open>2 ^ - 20\<close> away from the integers around it.\<close>

lemma ceiling_nearest_double_sqrt:
  fixes C :: nat
  assumes C: "C < 2 ^ 32"
    and near: "nearest_double (sqrt (real C)) d"
  shows "\<lceil>d\<rceil> = \<lceil>sqrt (real C)\<rceil>"
proof -
  define r where "r = sqrt (real C)"
  define n where "n = \<lceil>r\<rceil>"
  have r0: "0 \<le> r" by (simp add: r_def)
  have r2: "r * r = real C" by (simp add: r_def)
  have "real C < real (2 ^ 32)" using C by (simp only: of_nat_less_iff)
  then have "real C < 2 ^ 32" by simp
  then have "sqrt (real C) < sqrt ((2 ^ 16)\<^sup>2)" by (intro real_sqrt_less_mono) simp
  then have r16: "r < 2 ^ 16" by (simp add: r_def)
  have n_hi: "r \<le> of_int n" and n_lo: "of_int n - 1 < r"
    unfolding n_def by linarith+
  have "0 \<le> real_of_int n" using r0 n_hi by linarith
  then have n0: "0 \<le> n" by simp
  have n16: "n \<le> 2 ^ 16"
  proof -
    have "\<lceil>r\<rceil> \<le> 2 ^ 16" using r16 by (simp add: ceiling_le_iff)
    then show ?thesis by (simp add: n_def)
  qed
  from near have dd: "is_double d"
    and best: "\<And>d'. is_double d' \<Longrightarrow> \<bar>r - d\<bar> \<le> \<bar>r - d'\<bar>"
    unfolding nearest_double_def r_def by blast+
  show ?thesis
  proof (cases "r = of_int n")
    case True
    have "is_double (real_of_int n)" using n0 n16 by (intro is_double_int) simp
    from best [OF this] True have "d = r" by simp
    then show ?thesis using True by (simp add: r_def)
  next
    case False
    with n_hi have lt: "r < of_int n" by simp
    \<comment> \<open>the integer \<open>C\<close> lies strictly between two consecutive squares\<close>
    have "real C < of_int n * of_int n"
      using mult_strict_mono' [OF lt lt r0 r0] r2 by simp
    then have "real_of_int (int C) < real_of_int (n * n)" by simp
    then have "int C < n * n" by (simp only: of_int_less_iff)
    then have "int C \<le> n * n - 1" by simp
    then have "real_of_int (int C) \<le> real_of_int (n * n - 1)" by (simp only: of_int_le_iff)
    then have up: "real C \<le> of_int n * of_int n - 1" by simp
    have "0 < real_of_int n" using r0 lt by linarith
    then have n1: "1 \<le> n" by simp
    have p0: "0 \<le> real_of_int n - 1" using n1 by simp
    have "(of_int n - 1) * (of_int n - 1) < real C"
      using mult_strict_mono' [OF n_lo n_lo p0 p0] r2 by simp
    then have "real_of_int ((n - 1) * (n - 1)) < real_of_int (int C)" by simp
    then have "(n - 1) * (n - 1) < int C" by (simp only: of_int_less_iff)
    then have "(n - 1) * (n - 1) + 1 \<le> int C" by simp
    then have "real_of_int ((n - 1) * (n - 1) + 1) \<le> real_of_int (int C)"
      by (simp only: of_int_le_iff)
    then have low: "(of_int n - 1) * (of_int n - 1) + 1 \<le> real C" by simp
    define lo :: real where "lo = of_int n - 1 + 1 / 2 ^ 20"
    define hi :: real where "hi = of_int n - 1 / 2 ^ 20"
    have "real_of_int n \<le> real_of_int (2 ^ 16)" using n16 by (simp only: of_int_le_iff)
    then have rn16: "real_of_int n \<le> 2 ^ 16" by simp
    have rn1: "1 \<le> real_of_int n" using n1 by simp
    have p: "(2::real) ^ 16 = 65536" "(2::real) ^ 20 = 1048576" "(2::real) ^ 40 = 1099511627776"
      by simp_all
    have e1: "2 * (real_of_int n - 1) / 2 ^ 20 + 1 / 2 ^ 40 \<le> 1"
      using rn16 rn1 unfolding p by argo
    have e2: "2 * real_of_int n / 2 ^ 20 - 1 / 2 ^ 40 \<le> 1"
      using rn16 rn1 unfolding p by argo
    have lo0: "0 \<le> lo" unfolding lo_def using rn1 by simp
    have hi0: "0 \<le> hi" unfolding hi_def using rn1 by simp
    have "lo * lo = (of_int n - 1) * (of_int n - 1) + (2 * (of_int n - 1) / 2 ^ 20 + 1 / 2 ^ 40)"
      unfolding lo_def by (simp add: field_simps)
    also have "\<dots> \<le> (of_int n - 1) * (of_int n - 1) + 1"
      using e1 by (rule add_left_mono)
    also have "\<dots> \<le> r * r" using low r2 by simp
    finally have "lo\<^sup>2 \<le> r\<^sup>2" by (simp only: power2_eq_square)
    then have lo_le: "lo \<le> r" using r0 by (rule power2_le_imp_le)
    have "r * r \<le> of_int n * of_int n - 1" using up r2 by simp
    also have "\<dots> \<le> of_int n * of_int n - (2 * of_int n / 2 ^ 20 - 1 / 2 ^ 40)"
      using e2 by (rule diff_left_mono)
    also have "\<dots> = hi * hi" unfolding hi_def by (simp add: field_simps)
    finally have "r\<^sup>2 \<le> hi\<^sup>2" by (simp only: power2_eq_square)
    then have hi_ge: "r \<le> hi" using hi0 by (rule power2_le_imp_le)
    have "is_double (real_of_int ((n - 1) * 2 ^ 20 + 1) / 2 ^ 20)"
      using n1 n16 by (intro is_double_frac20) simp
    moreover have "real_of_int ((n - 1) * 2 ^ 20 + 1) / 2 ^ 20 = lo"
      unfolding lo_def by (simp add: field_simps)
    ultimately have dlo: "is_double lo" by simp
    have "is_double (real_of_int (n * 2 ^ 20 - 1) / 2 ^ 20)"
      using n1 n16 by (intro is_double_frac20) simp
    moreover have "real_of_int (n * 2 ^ 20 - 1) / 2 ^ 20 = hi"
      unfolding hi_def by (simp add: field_simps)
    ultimately have dhi: "is_double hi" by simp
    from best [OF dlo] lo_le have "lo \<le> d" by linarith
    moreover from best [OF dhi] hi_ge have "d \<le> hi" by linarith
    moreover have "of_int n - 1 < lo" unfolding lo_def by simp
    moreover have "hi < of_int n" unfolding hi_def by simp
    ultimately have "of_int n - 1 < d" "d \<le> of_int n" by linarith+
    then have "\<lceil>d\<rceil> = n" by (rule ceiling_unique)
    then show ?thesis by (simp add: n_def r_def)
  qed
qed

lemma ceiling_sqrt_least:
  fixes C :: nat
  defines "n \<equiv> nat \<lceil>sqrt (real C)\<rceil>"
  shows "C \<le> n * n" and "C \<le> k * k \<Longrightarrow> n \<le> k"
proof -
  have r0: "0 \<le> sqrt (real C)" by simp
  have c: "sqrt (real C) \<le> real_of_int \<lceil>sqrt (real C)\<rceil>" by (rule le_of_int_ceiling)
  have "0 \<le> real_of_int \<lceil>sqrt (real C)\<rceil>" using r0 c by (rule order_trans)
  then have c0: "0 \<le> \<lceil>sqrt (real C)\<rceil>" by simp
  then have "real n = real_of_int \<lceil>sqrt (real C)\<rceil>" unfolding n_def by simp
  with c have "sqrt (real C) \<le> real n" by simp
  then have "real C \<le> (real n)\<^sup>2" by (rule sqrt_le_D)
  then have "real C \<le> real (n * n)" by (simp add: power2_eq_square)
  then show "C \<le> n * n" by (simp only: of_nat_le_iff)
  assume "C \<le> k * k"
  then have "real C \<le> real (k * k)" by (simp only: of_nat_le_iff)
  then have "real C \<le> (real k)\<^sup>2" by (simp add: power2_eq_square)
  with of_nat_0_le_iff have "sqrt (real C) \<le> real k" by (rule real_le_lsqrt)
  then have "sqrt (real C) \<le> real_of_int (int k)" by simp
  then have "\<lceil>sqrt (real C)\<rceil> \<le> int k" by (simp only: ceiling_le_iff)
  then show "n \<le> k" unfolding n_def by (simp only: nat_le_iff)
qed

lemma grid_size_value:
  assumes "nearest_double (sqrt (real (unat item_count))) (Math_sqrt (real (unat item_count)))"
  shows "unat (get_square_grid_size_from_item_count Math_sqrt item_count)
      = nat \<lceil>sqrt (real (unat item_count))\<rceil>"
proof -
  let ?C = "unat item_count"
  have C: "?C < 2 ^ 32" using unsigned_less [of item_count] by simp
  have c: "\<lceil>Math_sqrt (real ?C)\<rceil> = \<lceil>sqrt (real ?C)\<rceil>"
    using C assms by (rule ceiling_nearest_double_sqrt [of ?C "Math_sqrt (real ?C)"])
  have "real ?C < real (2 ^ 32)" using C by (simp only: of_nat_less_iff)
  then have "sqrt (real ?C) < sqrt ((2 ^ 16)\<^sup>2)" by (intro real_sqrt_less_mono) simp
  then have "sqrt (real ?C) \<le> real_of_int (2 ^ 16)" by simp
  then have hi: "\<lceil>sqrt (real ?C)\<rceil> \<le> 2 ^ 16" by (simp only: ceiling_le_iff)
  have "0 \<le> sqrt (real ?C)" by (rule real_sqrt_ge_zero) (rule of_nat_0_le_iff)
  also have "\<dots> \<le> real_of_int \<lceil>sqrt (real ?C)\<rceil>" by (rule le_of_int_ceiling)
  finally have lo: "0 \<le> \<lceil>sqrt (real ?C)\<rceil>" by simp
  have "(2 :: int) ^ 16 < 2 ^ LENGTH(32)" by simp
  with hi have "\<lceil>sqrt (real ?C)\<rceil> < 2 ^ LENGTH(32)" by (rule le_less_trans)
  with lo have "take_bit LENGTH(32) \<lceil>sqrt (real ?C)\<rceil> = \<lceil>sqrt (real ?C)\<rceil>"
    by (rule take_bit_int_eq_self)
  then have "uint (word_of_int \<lceil>sqrt (real ?C)\<rceil> :: 32 word) = \<lceil>sqrt (real ?C)\<rceil>"
    by (simp only: uint_word_of_int_eq)
  then show ?thesis
    unfolding get_square_grid_size_from_item_count_def c by (simp only: unat_eq_nat_uint)
qed

text \<open>Claim C3: for every \<^verbatim>\<open>unsigned int\<close> item count, provided \<^verbatim>\<open>Math::sqrt\<close> returns a
  \<^verbatim>\<open>double\<close> nearest to the square root of the count (as IEEE 754 requires),
  \<^verbatim>\<open>get_square_grid_size_from_item_count\<close> returns the least natural number \<open>n\<close> with
  \<open>n * n\<close> at least the count; for the counts 0, 1, 2, 3, 4, 5 it returns 0, 1, 2, 2, 2, 3.\<close>

theorem grid_size_is_least_square:
  assumes "nearest_double (sqrt (real (unat item_count))) (Math_sqrt (real (unat item_count)))"
  shows "unat item_count \<le> unat (get_square_grid_size_from_item_count Math_sqrt item_count)
          * unat (get_square_grid_size_from_item_count Math_sqrt item_count) \<and>
    (\<forall>k. unat item_count \<le> k * k \<longrightarrow>
       unat (get_square_grid_size_from_item_count Math_sqrt item_count) \<le> k) \<and>
    (item_count = 0 \<longrightarrow> get_square_grid_size_from_item_count Math_sqrt item_count = 0) \<and>
    (item_count = 1 \<longrightarrow> get_square_grid_size_from_item_count Math_sqrt item_count = 1) \<and>
    (item_count = 2 \<longrightarrow> get_square_grid_size_from_item_count Math_sqrt item_count = 2) \<and>
    (item_count = 3 \<longrightarrow> get_square_grid_size_from_item_count Math_sqrt item_count = 2) \<and>
    (item_count = 4 \<longrightarrow> get_square_grid_size_from_item_count Math_sqrt item_count = 2) \<and>
    (item_count = 5 \<longrightarrow> get_square_grid_size_from_item_count Math_sqrt item_count = 3)"
proof -
  let ?g = "get_square_grid_size_from_item_count Math_sqrt item_count"
  note v = grid_size_value [of item_count Math_sqrt, OF assms]
  have sq: "unat item_count \<le> unat ?g * unat ?g"
    unfolding v by (rule ceiling_sqrt_least)
  have least: "unat ?g \<le> k" if "unat item_count \<le> k * k" for k
    unfolding v using that by (rule ceiling_sqrt_least)
  have val: "?g = of_nat n" if "unat item_count \<le> n * n"
    and "\<And>k. k < n \<Longrightarrow> k * k < unat item_count" for n
  proof -
    have "unat ?g \<le> n" using that(1) by (rule least)
    moreover have "\<not> unat ?g < n" using that(2) [of "unat ?g"] sq by auto
    ultimately have "unat ?g = n" by simp
    then have "word_of_nat (unat ?g) = (word_of_nat n :: 32 word)" by (simp only:)
    then show ?thesis by simp
  qed
  have small: "k * k < m" if "k < n" "(n - 1) * (n - 1) < m" for k n m :: nat
  proof -
    have "k \<le> n - 1" using that(1) by simp
    then have "k * k \<le> (n - 1) * (n - 1)" by (intro mult_le_mono)
    then show ?thesis using that(2) by simp
  qed
  have "item_count = 0 \<Longrightarrow> ?g = 0" using val [of 0] by simp
  moreover have "item_count = 1 \<Longrightarrow> ?g = 1" using val [of 1] by simp
  moreover have "item_count = 2 \<Longrightarrow> ?g = 2" using val [of 2] small [of _ 2 2] by simp
  moreover have "item_count = 3 \<Longrightarrow> ?g = 2" using val [of 2] small [of _ 2 3] by simp
  moreover have "item_count = 4 \<Longrightarrow> ?g = 2" using val [of 2] small [of _ 2 4] by simp
  moreover have "item_count = 5 \<Longrightarrow> ?g = 3" using val [of 3] small [of _ 3 5] by simp
  ultimately show ?thesis using sq least by blast
qed

theorem grid_size_is_least_square_witness:
  "nearest_double (sqrt (real (unat (4 :: 32 word)))) (sqrt (real (unat (4 :: 32 word)))) \<and>
   get_square_grid_size_from_item_count sqrt 4 = 2 \<and>
   unat (4 :: 32 word) \<le> unat (get_square_grid_size_from_item_count sqrt 4)
          * unat (get_square_grid_size_from_item_count sqrt 4)"
proof -
  have "is_double 2" using is_double_int [of 2] by simp
  then have h: "nearest_double (sqrt (real (unat (4 :: 32 word)))) (sqrt (real (unat (4 :: 32 word))))"
    by (simp add: nearest_double_def)
  from h grid_size_is_least_square [of 4 sqrt, OF h] show ?thesis by simp
qed

section \<open>The tile resolution doubles from the least to the greatest\<close>

lemma tile_resolution_value:
  assumes "valid_settings settings"
  shows "unat (get_detail_texture_tile_resolution_for_lod settings lod_index)
      = min (unat (tile_resolution_min settings)
               * 2 ^ (unat lod_index - unat (begin_lod_index settings)))
            (unat (tile_resolution_max settings))"
proof -
  let ?lo = "unat (tile_resolution_min settings)" and ?hi = "unat (tile_resolution_max settings)"
  let ?v = "?lo * 2 ^ (unat lod_index - unat (begin_lod_index settings))"
  have le: "?lo \<le> ?hi" using assms by (simp add: valid_settings_def word_le_nat_alt)
  have "?lo * 1 \<le> ?v" by (intro mult_le_mono2) simp
  then have c: "clamp_nat ?v ?lo ?hi = min ?v ?hi" unfolding clamp_nat_def by auto
  have "?hi < 2 ^ 8" using unsigned_less [of "tile_resolution_max settings"] by simp
  then have "min ?v ?hi < 2 ^ 32" by (simp add: min_def)
  then have "unat (of_nat (min ?v ?hi) :: 32 word) = min ?v ?hi" by (rule unat_of_nat32)
  then show ?thesis unfolding get_detail_texture_tile_resolution_for_lod_def Let_def c .
qed

text \<open>Claim C5: for valid settings and a LOD index not below \<^verbatim>\<open>begin_lod_index\<close>, the
  resolution is \<^verbatim>\<open>tile_resolution_min\<close> at \<^verbatim>\<open>begin_lod_index\<close>; it lies between
  \<^verbatim>\<open>tile_resolution_min\<close> and \<^verbatim>\<open>tile_resolution_max\<close>; at the next LOD index it is twice as
  large, clamped to \<^verbatim>\<open>tile_resolution_max\<close>; and it does not decrease as the LOD index moves
  away from \<^verbatim>\<open>begin_lod_index\<close>.\<close>

theorem tile_resolution_for_lod:
  assumes v: "valid_settings settings"
    and r: "unat (begin_lod_index settings) \<le> unat lod_index"
  shows "(unat lod_index = unat (begin_lod_index settings) \<longrightarrow>
       unat (get_detail_texture_tile_resolution_for_lod settings lod_index)
         = unat (tile_resolution_min settings)) \<and>
    unat (tile_resolution_min settings)
      \<le> unat (get_detail_texture_tile_resolution_for_lod settings lod_index) \<and>
    unat (get_detail_texture_tile_resolution_for_lod settings lod_index)
      \<le> unat (tile_resolution_max settings) \<and>
    (\<forall>lod'. unat lod' = unat lod_index + 1 \<longrightarrow>
       unat (get_detail_texture_tile_resolution_for_lod settings lod')
         = min (2 * unat (get_detail_texture_tile_resolution_for_lod settings lod_index))
             (unat (tile_resolution_max settings))) \<and>
    (\<forall>lod'. unat lod_index \<le> unat lod' \<longrightarrow>
       unat (get_detail_texture_tile_resolution_for_lod settings lod_index)
         \<le> unat (get_detail_texture_tile_resolution_for_lod settings lod'))"
proof -
  let ?lo = "unat (tile_resolution_min settings)" and ?hi = "unat (tile_resolution_max settings)"
  let ?b = "unat (begin_lod_index settings)"
  note val = tile_resolution_value [OF v]
  have le: "?lo \<le> ?hi" using v by (simp add: valid_settings_def word_le_nat_alt)
  have lower: "?lo \<le> ?lo * 2 ^ k" for k :: nat
  proof -
    have "?lo * 1 \<le> ?lo * 2 ^ k" by (intro mult_le_mono2) simp
    then show ?thesis by simp
  qed
  have step: "unat (get_detail_texture_tile_resolution_for_lod settings lod')
      = min (2 * unat (get_detail_texture_tile_resolution_for_lod settings lod_index)) ?hi"
    if "unat lod' = unat lod_index + 1" for lod'
  proof -
    have "unat lod' - ?b = Suc (unat lod_index - ?b)" using that r by simp
    then show ?thesis unfolding val by (simp add: min_def)
  qed
  have mono: "unat (get_detail_texture_tile_resolution_for_lod settings lod_index)
      \<le> unat (get_detail_texture_tile_resolution_for_lod settings lod')"
    if "unat lod_index \<le> unat lod'" for lod'
  proof -
    have "unat lod_index - ?b \<le> unat lod' - ?b" using that by simp
    then have "(2 :: nat) ^ (unat lod_index - ?b) \<le> 2 ^ (unat lod' - ?b)"
      by (intro power_increasing) simp_all
    then have "?lo * 2 ^ (unat lod_index - ?b) \<le> ?lo * 2 ^ (unat lod' - ?b)"
      by (rule mult_le_mono2)
    then show ?thesis unfolding val by (rule min.mono [OF _ order_refl])
  qed
  show ?thesis using step mono lower le unfolding val by (auto simp: min_def)
qed

text \<open>With the default settings the resolutions of LOD 2, 3 and 4 are 4, 8 and 8.\<close>

theorem tile_resolution_for_lod_witness:
  "valid_settings default_settings \<and> unat (begin_lod_index default_settings) \<le> unat (3 :: 32 word) \<and>
   get_detail_texture_tile_resolution_for_lod default_settings 2 = 4 \<and>
   get_detail_texture_tile_resolution_for_lod default_settings 3 = 8 \<and>
   get_detail_texture_tile_resolution_for_lod default_settings 4 = 8 \<and>
   unat (tile_resolution_min default_settings)
     \<le> unat (get_detail_texture_tile_resolution_for_lod default_settings 3) \<and>
   unat (get_detail_texture_tile_resolution_for_lod default_settings 3)
     \<le> unat (tile_resolution_max default_settings)"
proof -
  have v: "valid_settings default_settings"
    by (simp add: valid_settings_def default_settings_def MIN_DEVIATION_DEGREES_def
        MAX_DEVIATION_DEGREES_def)
  have r: "unat (begin_lod_index default_settings) \<le> unat (3 :: 32 word)"
    by (simp add: default_settings_def)
  have e: "get_detail_texture_tile_resolution_for_lod default_settings 2 = 4"
    "get_detail_texture_tile_resolution_for_lod default_settings 3 = 8"
    "get_detail_texture_tile_resolution_for_lod default_settings 4 = 8"
    by (simp_all add: get_detail_texture_tile_resolution_for_lod_def default_settings_def
        clamp_nat_def)
  from v r e tile_resolution_for_lod [OF v r] show ?thesis by blast
qed

section \<open>The completion flag is set once and stays set\<close>

text \<open>An access that the protocol allows is a store by the producer to an object that is
  not yet published, the publication of a populated object by the producer, or a poll.\<close>

lemma step_cases:
  assumes "step p a s = Some s'"
  obtains (images) i where "a = (p, StoreImages i)" "\<not> valid s" "s' = s\<lparr>images := i\<rparr>"
  | (textures) tex where "a = (p, StoreTextures tex)" "\<not> valid s" "s' = s\<lparr>textures := tex\<rparr>"
  | (publish) "a = (p, StoreValid True)" "\<not> valid s" "populated s" "s' = s\<lparr>valid := True\<rparr>"
  | (load) t where "a = (t, LoadValid)" "s' = s"
proof (cases a)
  case (Pair t b)
  with assms show ?thesis
    by (cases b) (auto split: if_splits intro: images textures publish load)
qed

lemma step_valid: "step p a s = Some s' \<Longrightarrow> valid s \<Longrightarrow> valid s'"
  by (erule step_cases) simp_all

text \<open>The protocol refuses to publish an empty object, to publish from another thread, to
  clear the flag, to set it a second time, and to store after the publication or from
  another thread.\<close>

lemma protocol_refuses:
  "run 0 new_DetailTextureOutput [(0, StoreValid True)] = None"
  "run 0 new_DetailTextureOutput [(0, StoreImages example_images), (1, StoreValid True)] = None"
  "run 0 new_DetailTextureOutput
     [(0, StoreImages example_images), (0, StoreValid True), (0, StoreValid False)] = None"
  "run 0 new_DetailTextureOutput
     [(0, StoreImages example_images), (0, StoreValid True), (0, StoreValid True)] = None"
  "run 0 new_DetailTextureOutput
     [(0, StoreImages example_images), (0, StoreValid True), (0, StoreImages example_images)]
   = None"
  "run 0 new_DetailTextureOutput [(1, StoreImages example_images)] = None"
  by (simp_all add: new_DetailTextureOutput_def example_images_def populated_def)

lemma run_head: "run p s as = Some tr \<Longrightarrow> \<exists>tr'. tr = s # tr'"
  by (cases as) (auto split: option.splits)

lemma run_flag:
  "run p s as = Some tr \<Longrightarrow> falls tr = 0 \<and> rises tr \<le> (if valid s then 0 else 1)"
proof (induction as arbitrary: s tr)
  case Nil
  then show ?case by auto
next
  case (Cons a as)
  from Cons.prems obtain s' tr' where st: "step p a s = Some s'" and r: "run p s' as = Some tr'"
    and tr: "tr = s # tr'"
    by (auto split: option.splits)
  from run_head [OF r] obtain tr'' where tr': "tr' = s' # tr''" by blast
  from Cons.IH [OF r] have ih: "falls tr' = 0" "rises tr' \<le> (if valid s' then 0 else 1)"
    by simp_all
  have keep: "valid s \<Longrightarrow> valid s'" using st by (rule step_valid)
  show ?case using ih keep unfolding tr tr' by (auto split: if_splits)
qed

text \<open>Each state of a run is the successor of the one before it under the access at its
  place.\<close>

lemma run_nth:
  "run p s as = Some tr \<Longrightarrow>
     length tr = Suc (length as) \<and> tr ! 0 = s \<and>
     (\<forall>k < length as. step p (as ! k) (tr ! k) = Some (tr ! Suc k))"
proof (induction as arbitrary: s tr)
  case Nil
  then show ?case by auto
next
  case (Cons a as)
  from Cons.prems obtain s' tr' where st: "step p a s = Some s'" and r: "run p s' as = Some tr'"
    and tr: "tr = s # tr'"
    by (auto split: option.splits)
  from Cons.IH [OF r] have len: "length tr' = Suc (length as)" and h: "tr' ! 0 = s'"
    and ih: "\<And>k. k < length as \<Longrightarrow> step p (as ! k) (tr' ! k) = Some (tr' ! Suc k)"
    by simp_all
  have "step p ((a # as) ! k) (tr ! k) = Some (tr ! Suc k)" if "k < length (a # as)" for k
  proof (cases k)
    case 0
    then show ?thesis using st h tr by simp
  next
    case (Suc k')
    with that have "k' < length as" by simp
    from ih [OF this] show ?thesis using Suc tr by simp
  qed
  then show ?case using len tr by simp
qed

text \<open>Whatever images or textures an object holds that it did not start with, the producer
  has stored earlier in the run.\<close>

lemma stores_before:
  assumes r: "run p s as = Some tr"
  shows "k \<le> length as \<Longrightarrow>
    (images (tr ! k) = images s \<or> (\<exists>j < k. as ! j = (p, StoreImages (images (tr ! k))))) \<and>
    (textures (tr ! k) = textures s \<or> (\<exists>j < k. as ! j = (p, StoreTextures (textures (tr ! k)))))"
proof (induction k)
  case 0
  then show ?case using run_nth [OF r] by simp
next
  case (Suc k)
  then have k: "k < length as" by simp
  from Suc.IH k have
    im: "images (tr ! k) = images s \<or> (\<exists>j < k. as ! j = (p, StoreImages (images (tr ! k))))"
    and tx: "textures (tr ! k) = textures s
      \<or> (\<exists>j < k. as ! j = (p, StoreTextures (textures (tr ! k))))"
    by simp_all
  from run_nth [OF r] k have "step p (as ! k) (tr ! k) = Some (tr ! Suc k)" by blast
  then show ?case
  proof (cases rule: step_cases)
    case (images i)
    then have "as ! k = (p, StoreImages (images (tr ! Suc k)))"
      "textures (tr ! Suc k) = textures (tr ! k)" by simp_all
    then show ?thesis using tx by (metis less_Suc_eq)
  next
    case (textures tex)
    then have "as ! k = (p, StoreTextures (textures (tr ! Suc k)))"
      "images (tr ! Suc k) = images (tr ! k)" by simp_all
    then show ?thesis using im by (metis less_Suc_eq)
  next
    case publish
    then have "images (tr ! Suc k) = images (tr ! k)" "textures (tr ! Suc k) = textures (tr ! k)"
      by simp_all
    then show ?thesis using im tx by (metis less_Suc_eq)
  next
    case (load t)
    then show ?thesis using im tx by (metis less_Suc_eq)
  qed
qed

text \<open>Claim C9: over the life of a \<^verbatim>\<open>DetailTextureOutput\<close>, from its creation through any
  sequence of accesses that the protocol allows, the flag \<^verbatim>\<open>valid\<close> starts false, never goes
  from true to false, and goes from false to true at most once; where it does, the access
  is the store of true by the one producer, the object is populated, and the producer has
  stored its images or its textures earlier in the run; and every store in the run is the
  producer's.\<close>

theorem valid_flag_rises_once:
  assumes r: "run producer new_DetailTextureOutput as = Some tr"
  shows "\<not> valid (hd tr) \<and> falls tr = 0 \<and> rises tr \<le> 1 \<and>
    (\<forall>k < length as. \<not> valid (tr ! k) \<and> valid (tr ! Suc k) \<longrightarrow>
       as ! k = (producer, StoreValid True) \<and> populated (tr ! k) \<and>
       (\<exists>j < k. as ! j = (producer, StoreImages (images (tr ! k))) \<or>
                as ! j = (producer, StoreTextures (textures (tr ! k))))) \<and>
    (\<forall>k < length as. snd (as ! k) \<noteq> LoadValid \<longrightarrow> fst (as ! k) = producer)"
proof -
  note n = run_nth [OF r]
  from run_head [OF r] have "hd tr = new_DetailTextureOutput" by auto
  then have first: "\<not> valid (hd tr)" by (simp add: new_DetailTextureOutput_def)
  from run_flag [OF r] have flag: "falls tr = 0" "rises tr \<le> 1"
    by (simp_all add: new_DetailTextureOutput_def)
  have rise: "as ! k = (producer, StoreValid True) \<and> populated (tr ! k) \<and>
       (\<exists>j < k. as ! j = (producer, StoreImages (images (tr ! k))) \<or>
                as ! j = (producer, StoreTextures (textures (tr ! k))))"
    if k: "k < length as" and up: "\<not> valid (tr ! k)" "valid (tr ! Suc k)" for k
  proof -
    from n k have "step producer (as ! k) (tr ! k) = Some (tr ! Suc k)" by blast
    then have a: "as ! k = (producer, StoreValid True)" and p: "populated (tr ! k)"
      using up by (cases rule: step_cases; simp)+
    from stores_before [OF r, of k] k have
      "images (tr ! k) = images new_DetailTextureOutput
         \<or> (\<exists>j < k. as ! j = (producer, StoreImages (images (tr ! k))))"
      "textures (tr ! k) = textures new_DetailTextureOutput
         \<or> (\<exists>j < k. as ! j = (producer, StoreTextures (textures (tr ! k))))"
      by simp_all
    moreover have "\<not> (images (tr ! k) = images new_DetailTextureOutput \<and>
        textures (tr ! k) = textures new_DetailTextureOutput)"
      using p by (auto simp: populated_def new_DetailTextureOutput_def)
    ultimately have "\<exists>j < k. as ! j = (producer, StoreImages (images (tr ! k))) \<or>
        as ! j = (producer, StoreTextures (textures (tr ! k)))"
      by blast
    with a p show ?thesis by blast
  qed
  have writer: "fst (as ! k) = producer" if k: "k < length as" and w: "snd (as ! k) \<noteq> LoadValid"
    for k
  proof -
    from n k have "step producer (as ! k) (tr ! k) = Some (tr ! Suc k)" by blast
    then show ?thesis using w by (cases rule: step_cases) simp_all
  qed
  from first flag rise writer show ?thesis by blast
qed

text \<open>The producer stores the images and publishes, and two consumers poll before and
  after: the flag rises at the fourth access.\<close>

theorem valid_flag_rises_once_witness:
  "run 0 new_DetailTextureOutput example_accesses = Some example_states \<and>
   \<not> valid (hd example_states) \<and> falls example_states = 0 \<and> rises example_states \<le> 1 \<and>
   (\<not> valid (example_states ! 3) \<and> valid (example_states ! Suc 3)) \<and>
   example_accesses ! 3 = (0, StoreValid True) \<and> populated (example_states ! 3) \<and>
   (\<exists>j < 3. example_accesses ! j = (0, StoreImages (images (example_states ! 3))) \<or>
            example_accesses ! j = (0, StoreTextures (textures (example_states ! 3)))) \<and>
   (snd (example_accesses ! 1) \<noteq> LoadValid \<and> fst (example_accesses ! 1) = 0)"
proof -
  have r: "run 0 new_DetailTextureOutput example_accesses = Some example_states"
    by (simp add: example_accesses_def example_states_def new_DetailTextureOutput_def
        example_images_def populated_def)
  have up: "\<not> valid (example_states ! 3) \<and> valid (example_states ! Suc 3)"
    by (simp add: example_states_def new_DetailTextureOutput_def)
  have k: "(3 :: nat) < length example_accesses" "(1 :: nat) < length example_accesses"
    by (simp_all add: example_accesses_def)
  have w: "snd (example_accesses ! 1) \<noteq> LoadValid" by (simp add: example_accesses_def)
  from valid_flag_rises_once [OF r] r up k w show ?thesis by blast
qed

section \<open>A full iteration yields as many cells as counted, and the same ones again\<close>

lemma contract_next:
  assumes c: "contract it usable cells_of cursor" and u: "usable s"
    and le: "cursor s \<le> length (cells_of s)"
    and n: "next it s info = (ok, info', s')"
  shows "usable s'" and "cells_of s' = cells_of s"
    and "if cursor s < length (cells_of s)
       then ok \<and> info' = cells_of s ! cursor s \<and> cursor s' = Suc (cursor s) else \<not> ok"
proof -
  note k = c [unfolded contract_def, rule_format, OF u]
  note all = k [THEN conjunct2, THEN conjunct2, THEN conjunct2, THEN conjunct2, rule_format,
      OF le, of info, unfolded n prod.case]
  from all show "usable s'" by (rule conjunct1)
  from all show "cells_of s' = cells_of s" by (rule conjunct2 [THEN conjunct1])
  from all show "if cursor s < length (cells_of s)
       then ok \<and> info' = cells_of s ! cursor s \<and> cursor s' = Suc (cursor s) else \<not> ok"
    by (rule conjunct2 [THEN conjunct2])
qed

lemma contract_rewind:
  assumes c: "contract it usable cells_of cursor" and u: "usable s"
  shows "unat (get_count it s) = length (cells_of s)" and "usable (rewind it s)"
    and "cells_of (rewind it s) = cells_of s" and "cursor (rewind it s) = 0"
proof -
  note k = c [unfolded contract_def, rule_format, OF u]
  from k show "unat (get_count it s) = length (cells_of s)" by (rule conjunct1)
  from k show "usable (rewind it s)" by (rule conjunct2 [THEN conjunct1])
  from k show "cells_of (rewind it s) = cells_of s"
    by (rule conjunct2 [THEN conjunct2, THEN conjunct1])
  from k show "cursor (rewind it s) = 0"
    by (rule conjunct2 [THEN conjunct2, THEN conjunct2, THEN conjunct1])
qed

text \<open>From a cursor inside the sequence, an iteration with more fuel than cells left
  returns the cells from the cursor on.\<close>

lemma iterate_rest:
  assumes c: "contract it usable cells_of cursor"
  shows "usable s \<Longrightarrow> cursor s \<le> length (cells_of s) \<Longrightarrow> length (cells_of s) - cursor s < fuel \<Longrightarrow>
    \<exists>s'. iterate it fuel s info = Some (drop (cursor s) (cells_of s), s') \<and>
         usable s' \<and> cells_of s' = cells_of s"
proof (induction fuel arbitrary: s info)
  case 0
  then show ?case by simp
next
  case (Suc fuel)
  obtain ok info' s' where n: "next it s info = (ok, info', s')" by (cases "next it s info")
  note s' = contract_next(1,2) [OF c Suc.prems(1,2) n]
    and branch = contract_next(3) [OF c Suc.prems(1,2) n]
  show ?case
  proof (cases "cursor s < length (cells_of s)")
    case True
    with branch have ok: ok and i: "info' = cells_of s ! cursor s"
      and cs: "cursor s' = Suc (cursor s)" by simp_all
    have "cursor s' \<le> length (cells_of s')" using True cs s'(2) by simp
    moreover have "length (cells_of s') - cursor s' < fuel" using Suc.prems(3) True cs s'(2) by simp
    ultimately obtain t where
      t: "iterate it fuel s' info' = Some (drop (cursor s') (cells_of s'), t)"
        "usable t" "cells_of t = cells_of s'"
      using Suc.IH [OF s'(1), of info'] by blast
    have "drop (cursor s) (cells_of s) = info' # drop (cursor s') (cells_of s')"
      unfolding i cs s'(2) using True by (simp add: Cons_nth_drop_Suc)
    then show ?thesis using n ok t s'(2) by simp
  next
    case False
    with branch Suc.prems(2) have "\<not> ok" "drop (cursor s) (cells_of s) = []" by simp_all
    then show ?thesis using n s' by simp
  qed
qed

text \<open>Claim C8: for every implementation of \<^verbatim>\<open>ICellIterator\<close> that satisfies the contract
  and every state it can be in, the iteration that follows \<^verbatim>\<open>rewind()\<close> stops, the number of
  calls of \<^verbatim>\<open>next()\<close> that returned true before the first that returned false is
  \<^verbatim>\<open>get_count()\<close>, and after another \<^verbatim>\<open>rewind()\<close> a second iteration yields the same sequence
  of \<^verbatim>\<open>CurrentCellInfo\<close> values.\<close>

theorem count_is_exact_and_rewind_repeats:
  assumes c: "contract it usable cells_of cursor" and s: "usable s"
  shows "\<exists>cells s1 s2.
    iterate it (Suc (unat (get_count it s))) (rewind it s) info = Some (cells, s1) \<and>
    length cells = unat (get_count it s) \<and>
    get_count it s1 = get_count it s \<and>
    iterate it (Suc (unat (get_count it s))) (rewind it s1) info' = Some (cells, s2)"
proof -
  note n = contract_rewind(1) [OF c s] and r = contract_rewind(2-4) [OF c s]
  from iterate_rest [OF c r(1), of "Suc (unat (get_count it s))" info] n r(2,3)
  obtain s1 where s1: "iterate it (Suc (unat (get_count it s))) (rewind it s) info
      = Some (cells_of s, s1)" "usable s1" "cells_of s1 = cells_of s"
    by auto
  note n1 = contract_rewind(1) [OF c s1(2)] and r1 = contract_rewind(2-4) [OF c s1(2)]
  from iterate_rest [OF c r1(1), of "Suc (unat (get_count it s))" info'] n r1(2,3) s1(3)
  obtain s2 where s2: "iterate it (Suc (unat (get_count it s))) (rewind it s1) info'
      = Some (cells_of s, s2)"
    by auto
  have "unat (get_count it s1) = unat (get_count it s)" using n n1 s1(3) by simp
  then have "get_count it s1 = get_count it s" by (simp only: word_unat_eq_iff)
  with s1(1) s2 n show ?thesis by auto
qed

text \<open>The iterator over a stored sequence satisfies the contract as long as the sequence
  has fewer than \<open>2 ^ 32\<close> cells.\<close>

lemma list_iterator_contract:
  "contract list_iterator (\<lambda>s. length (fst s) < 2 ^ 32) fst snd"
  unfolding contract_def
proof (intro allI impI conjI)
  fix s :: "CurrentCellInfo list \<times> nat"
  obtain cells pos where s: "s = (cells, pos)" by (cases s)
  assume "length (fst s) < 2 ^ 32"
  then have l: "length cells < 2 ^ 32" by (simp add: s)
  show "unat (get_count list_iterator s) = length (fst s)"
    using l by (simp add: s list_iterator_def unat_of_nat32)
  show "length (fst (rewind list_iterator s)) < 2 ^ 32"
    using l by (simp add: s list_iterator_def)
  show "fst (rewind list_iterator s) = fst s" by (simp add: s list_iterator_def)
  show "snd (rewind list_iterator s) = 0" by (simp add: s list_iterator_def)
  fix info
  show "case next list_iterator s info of
      (ok, info', s') \<Rightarrow>
        length (fst s') < 2 ^ 32 \<and> fst s' = fst s \<and>
        (if snd s < length (fst s) then ok \<and> info' = fst s ! snd s \<and> snd s' = Suc (snd s)
         else \<not> ok)"
    using l by (simp add: s list_iterator_def)
qed

theorem count_is_exact_and_rewind_repeats_witness:
  "contract list_iterator (\<lambda>s. length (fst s) < 2 ^ 32) fst snd \<and>
   length (fst ([cell_a, cell_b], 1 :: nat)) < 2 ^ 32 \<and>
   iterate list_iterator 3 (rewind list_iterator ([cell_a, cell_b], 1)) cell_b
     = Some ([cell_a, cell_b], ([cell_a, cell_b], 2)) \<and>
   (\<exists>cells s1 s2.
      iterate list_iterator (Suc (unat (get_count list_iterator ([cell_a, cell_b], 1))))
        (rewind list_iterator ([cell_a, cell_b], 1)) cell_b = Some (cells, s1) \<and>
      length cells = unat (get_count list_iterator ([cell_a, cell_b], 1)) \<and>
      get_count list_iterator s1 = get_count list_iterator ([cell_a, cell_b], 1) \<and>
      iterate list_iterator (Suc (unat (get_count list_iterator ([cell_a, cell_b], 1))))
        (rewind list_iterator s1) cell_a = Some (cells, s2))"
proof -
  have u: "length (fst ([cell_a, cell_b], 1 :: nat)) < 2 ^ 32" by simp
  have e: "iterate list_iterator 3 (rewind list_iterator ([cell_a, cell_b], 1)) cell_b
     = Some ([cell_a, cell_b], ([cell_a, cell_b], 2))"
    by (simp add: list_iterator_def numeral_3_eq_3)
  from list_iterator_contract u e
    count_is_exact_and_rewind_repeats [OF list_iterator_contract u, of cell_b cell_a]
  show ?thesis by blast
qed

section \<open>Sizes of the sampler's output\<close>

lemma length_encode_normal:
  "length (encode_normal c octahedral_encoding n) = bytes_per_pixel octahedral_encoding"
  by (simp add: encode_normal_def bytes_per_pixel_def split: prod.splits)

lemma length_concat_const:
  "(\<And>a. a \<in> set xs \<Longrightarrow> length (f a) = k) \<Longrightarrow> length (concat (map f xs)) = length xs * k"
  by (induction xs) simp_all

lemma length_tile_pixels: "length (tile_pixels r) = r * r"
  unfolding tile_pixels_def by (subst length_concat_const [where k = r]) simp_all

lemma length_tile_normals:
  "length (tile_normals c r octahedral_encoding cell) = r * r * bytes_per_pixel octahedral_encoding"
  unfolding tile_normals_def
  by (subst length_concat_const [where k = "bytes_per_pixel octahedral_encoding"])
    (auto simp: length_encode_normal length_tile_pixels)

text \<open>The loop keeps the buffers in step: one block of normals and, when only edited tiles
  are computed, one index for each tile.\<close>

lemma sample_cells_sizes:
  assumes "length (normals d) = length (tiles d) * (r * r * bytes_per_pixel oct)"
    and "if edited_only then length (tile_indices d) = length (tiles d) else tile_indices d = []"
  shows "length (normals (sample_cells c r oct edited_only i cells d))
        = length (tiles (sample_cells c r oct edited_only i cells d))
            * (r * r * bytes_per_pixel oct) \<and>
      (if edited_only
       then length (tile_indices (sample_cells c r oct edited_only i cells d))
              = length (tiles (sample_cells c r oct edited_only i cells d))
       else tile_indices (sample_cells c r oct edited_only i cells d) = [])"
  using assms
proof (induction cells arbitrary: i d)
  case Nil
  then show ?case by simp
next
  case (Cons cell cells)
  show ?case
  proof (cases "edited_only \<and> \<not> has_edits c cell")
    case True
    then have eq: "sample_cells c r oct edited_only i (cell # cells) d
        = sample_cells c r oct edited_only (i + 1) cells d"
      by simp
    show ?thesis unfolding eq using Cons.prems by (rule Cons.IH)
  next
    case False
    let ?d = "d\<lparr>normals := normals d @ tile_normals c r oct cell,
        tiles := tiles d @ [cell_tile c cell],
        tile_indices := (if edited_only then tile_indices d @ [of_nat i] else tile_indices d)\<rparr>"
    have a: "length (normals ?d) = length (tiles ?d) * (r * r * bytes_per_pixel oct)"
      using Cons.prems(1) by (simp add: length_tile_normals algebra_simps)
    have b: "if edited_only then length (tile_indices ?d) = length (tiles ?d)
        else tile_indices ?d = []"
      using Cons.prems(2) by (simp split: if_splits)
    have eq: "sample_cells c r oct edited_only i (cell # cells) d
        = sample_cells c r oct edited_only (i + 1) cells ?d"
      using False by (subst sample_cells.simps(2)) (simp only: if_False)
    show ?thesis unfolding eq using a b by (rule Cons.IH)
  qed
qed

text \<open>Claim C6: every \<^verbatim>\<open>DetailTextureData\<close> that \<^verbatim>\<open>compute_detail_texture_data\<close> produces has
  \<^verbatim>\<open>normals.size() == tiles.size() * tile_resolution * tile_resolution * bytes_per_pixel\<close>,
  with 3 bytes for a pixel without octahedral encoding and 2 with it; and if
  \<^verbatim>\<open>tile_indices\<close> is not empty it has as many entries as \<^verbatim>\<open>tiles\<close>.\<close>

theorem sampler_output_sizes:
  "length (normals (compute_detail_texture_data c cells tile_resolution octahedral_encoding
       edited_tiles_only))
     = length (tiles (compute_detail_texture_data c cells tile_resolution octahedral_encoding
         edited_tiles_only))
       * unat tile_resolution * unat tile_resolution * bytes_per_pixel octahedral_encoding \<and>
   (tile_indices (compute_detail_texture_data c cells tile_resolution octahedral_encoding
       edited_tiles_only) \<noteq> [] \<longrightarrow>
    length (tile_indices (compute_detail_texture_data c cells tile_resolution
       octahedral_encoding edited_tiles_only))
      = length (tiles (compute_detail_texture_data c cells tile_resolution octahedral_encoding
          edited_tiles_only)))"
proof -
  let ?d0 = "\<lparr>normals = [], tiles = [], tile_indices = []\<rparr>"
  have "length (normals ?d0)
      = length (tiles ?d0) * (unat tile_resolution * unat tile_resolution
          * bytes_per_pixel octahedral_encoding)"
    and "if edited_tiles_only then length (tile_indices ?d0) = length (tiles ?d0)
      else tile_indices ?d0 = []"
    by simp_all
  from sample_cells_sizes [OF this, of c 0 cells]
  show ?thesis unfolding compute_detail_texture_data_def
    by (auto simp: mult.assoc split: if_splits)
qed

text \<open>Two cells of which one is edited, tiles of 2 by 2 pixels with octahedral encoding:
  one tile, its index 1, and 8 bytes of normals.\<close>

theorem sampler_output_sizes_witness:
  "tile_indices (compute_detail_texture_data example_collaborators [cell_a, cell_b] 2 True True)
     = [1] \<and>
   tile_indices (compute_detail_texture_data example_collaborators [cell_a, cell_b] 2 True True)
     \<noteq> [] \<and>
   length (tile_indices
       (compute_detail_texture_data example_collaborators [cell_a, cell_b] 2 True True))
     = length (tiles
         (compute_detail_texture_data example_collaborators [cell_a, cell_b] 2 True True)) \<and>
   length (normals
       (compute_detail_texture_data example_collaborators [cell_a, cell_b] 2 True True))
     = length (tiles
         (compute_detail_texture_data example_collaborators [cell_a, cell_b] 2 True True))
       * unat (2 :: 32 word) * unat (2 :: 32 word) * bytes_per_pixel True"
proof -
  have e: "tile_indices
      (compute_detail_texture_data example_collaborators [cell_a, cell_b] 2 True True) = [1]"
    by (simp add: compute_detail_texture_data_def example_collaborators_def cell_a_def
        cell_b_def)
  then have n: "tile_indices
      (compute_detail_texture_data example_collaborators [cell_a, cell_b] 2 True True) \<noteq> []"
    by simp
  from e n sampler_output_sizes [of example_collaborators "[cell_a, cell_b]" 2 True True]
  show ?thesis by blast
qed

end
